theory Spec2Isabelle
  imports Complex_Main "HOL-Library.Code_Target_Numeral"
begin

section \<open>JavaScript numbers\<close>

text \<open>
  Every number of \<^verbatim>\<open>highlight.js\<close> is an IEEE-754 binary64 value. A finite double is
  represented by the rational it denotes; \<^verbatim>\<open>NaN\<close> and the two infinities are
  constructors of their own. The two zeros are identified: the file never divides by a
  negative zero and never prints one.
\<close>

datatype number = NaN | PosInf | NegInf | Fin rat

definition pow2 :: "int \<Rightarrow> rat" where
  "pow2 e = (if 0 \<le> e then 2 ^ nat e else 1 / 2 ^ nat (- e))"

fun ilog2 :: "nat \<Rightarrow> nat" where
  "ilog2 n = (if n < 2 then 0 else Suc (ilog2 (n div 2)))"

declare ilog2.simps [simp del]

text \<open>The binary exponent of a positive rational: \<open>pow2 (expo x) \<le> x < pow2 (expo x + 1)\<close>.\<close>

definition expo :: "rat \<Rightarrow> int" where
  "expo x = (case quotient_of x of (p, q) \<Rightarrow>
     (let e0 = int (ilog2 (nat p)) - int (ilog2 (nat q))
      in if pow2 e0 \<le> x then e0 else e0 - 1))"

text \<open>Rounding to the nearest integer, a tie going to the even neighbour.\<close>

definition rhe :: "rat \<Rightarrow> int" where
  "rhe y = (let f = \<lfloor>y\<rfloor>; d = y - of_int f
            in if d < 1 / 2 then f else if 1 / 2 < d then f + 1
               else if even f then f else f + 1)"

text \<open>
  \<open>fl x\<close> is the double that a correctly rounded operation returns for the exact result
  \<open>x\<close> (round to nearest, ties to even): 53 significant bits, gradual underflow below
  \<open>2\<^sup>-\<^sup>1\<^sup>0\<^sup>2\<^sup>2\<close>, overflow to an infinity from \<open>2\<^sup>1\<^sup>0\<^sup>2\<^sup>4\<close> on.
\<close>

definition fl :: "rat \<Rightarrow> number" where
  "fl x = (if x = 0 then Fin 0 else
     (let e = max (expo \<bar>x\<bar>) (- 1022);
          u = pow2 (e - 52);
          r = of_int (rhe (x / u)) * u
      in if pow2 1024 \<le> \<bar>r\<bar> then (if 0 < x then PosInf else NegInf) else Fin r))"

fun js_neg :: "number \<Rightarrow> number" where
  "js_neg NaN = NaN"
| "js_neg PosInf = NegInf"
| "js_neg NegInf = PosInf"
| "js_neg (Fin a) = Fin (- a)"

fun js_add :: "number \<Rightarrow> number \<Rightarrow> number" where
  "js_add (Fin a) (Fin b) = fl (a + b)"
| "js_add NaN _ = NaN"
| "js_add _ NaN = NaN"
| "js_add PosInf NegInf = NaN"
| "js_add NegInf PosInf = NaN"
| "js_add PosInf _ = PosInf"
| "js_add _ PosInf = PosInf"
| "js_add NegInf _ = NegInf"
| "js_add _ NegInf = NegInf"

definition js_sub :: "number \<Rightarrow> number \<Rightarrow> number" where
  "js_sub a b = js_add a (js_neg b)"

text \<open>The sign of a product or quotient with an infinite operand.\<close>

definition signed_inf :: "bool \<Rightarrow> number" where
  "signed_inf negative = (if negative then NegInf else PosInf)"

fun is_negative :: "number \<Rightarrow> bool" where
  "is_negative (Fin a) = (a < 0)"
| "is_negative NegInf = True"
| "is_negative _ = False"

fun js_mul :: "number \<Rightarrow> number \<Rightarrow> number" where
  "js_mul (Fin a) (Fin b) = fl (a * b)"
| "js_mul NaN _ = NaN"
| "js_mul _ NaN = NaN"
| "js_mul a b =
     (if a = Fin 0 \<or> b = Fin 0 then NaN
      else signed_inf (is_negative a \<noteq> is_negative b))"

fun js_div :: "number \<Rightarrow> number \<Rightarrow> number" where
  "js_div (Fin a) (Fin b) =
     (if b = 0 then (if a = 0 then NaN else signed_inf (a < 0)) else fl (a / b))"
| "js_div NaN _ = NaN"
| "js_div _ NaN = NaN"
| "js_div (Fin a) _ = Fin 0"
| "js_div a (Fin b) = signed_inf (is_negative a \<noteq> (b < 0))"
| "js_div _ _ = NaN"

text \<open>
  \<^verbatim>\<open>Math.round\<close> returns the integer nearest to its argument, a tie going up, and
  leaves \<^verbatim>\<open>NaN\<close> and the infinities as they are. Its results are the values of type
  \<open>rounded\<close>.
\<close>

datatype rounded = RNaN | RPosInf | RNegInf | RInt int

fun math_round :: "number \<Rightarrow> rounded" where
  "math_round NaN = RNaN"
| "math_round PosInf = RPosInf"
| "math_round NegInf = RNegInf"
| "math_round (Fin a) = RInt \<lfloor>a + 1 / 2\<rfloor>"

text \<open>
  The string a number turns into when it is concatenated with a string. Integers print
  as their decimal digits (below \<open>10\<^sup>2\<^sup>1\<close>, which bounds every integer printed here).
\<close>

fun digits :: "nat \<Rightarrow> string" where
  "digits n = (if n < 10 then [''0123456789'' ! n]
               else digits (n div 10) @ [''0123456789'' ! (n mod 10)])"

declare digits.simps [simp del]

fun to_string :: "rounded \<Rightarrow> string" where
  "to_string RNaN = ''NaN''"
| "to_string RPosInf = ''Infinity''"
| "to_string RNegInf = ''-Infinity''"
| "to_string (RInt k) = (if k < 0 then ''-'' @ digits (nat (- k)) else digits (nat k))"

text \<open>
  Truthiness of a number, and \<^verbatim>\<open>a || d\<close> for an \<open>a\<close> that is a number or
  \<^verbatim>\<open>undefined\<close> (\<open>None\<close>): the zeros and \<^verbatim>\<open>NaN\<close> are falsy, as \<^verbatim>\<open>undefined\<close> is.
\<close>

fun truthy :: "number \<Rightarrow> bool" where
  "truthy NaN = False"
| "truthy (Fin a) = (a \<noteq> 0)"
| "truthy _ = True"

fun js_or :: "number option \<Rightarrow> number \<Rightarrow> number" where
  "js_or None d = d"
| "js_or (Some v) d = (if truthy v then v else d)"

section \<open>Palette generator\<close>

text \<open>
  \<^verbatim>\<open>getTeamColors(numTeams)\<close>, for a team count that is a natural number below
  \<open>2\<^sup>5\<^sup>3\<close>, where the loop counter and \<^verbatim>\<open>numTeams\<close> are exact doubles.
  \<open>teamColor numTeams i\<close> is the string pushed by iteration \<open>i\<close> of the loop.
\<close>

definition teamColor :: "nat \<Rightarrow> nat \<Rightarrow> string" where
  "teamColor numTeams i =
     (let ratio = js_div (Fin (of_nat i)) (js_sub (Fin (of_nat numTeams)) (Fin 1));
          r = math_round (js_add (Fin 52) (js_mul (js_sub (Fin 231) (Fin 52)) ratio));
          g = math_round (js_add (Fin 152) (js_mul (js_sub (Fin 76) (Fin 152)) ratio));
          b = math_round (js_add (Fin 219) (js_mul (js_sub (Fin 60) (Fin 219)) ratio))
      in ''rgb('' @ to_string r @ '','' @ to_string g @ '','' @ to_string b @ '')'')"

function getTeamColors_loop :: "nat \<Rightarrow> nat \<Rightarrow> string list \<Rightarrow> string list" where
  "getTeamColors_loop numTeams i colors =
     (if i < numTeams
      then getTeamColors_loop numTeams (i + 1) (colors @ [teamColor numTeams i])
      else colors)"
  by pat_completeness auto
termination
  by (relation "measure (\<lambda>(numTeams, i, colors). numTeams - i)") auto

declare getTeamColors_loop.simps [simp del]

definition getTeamColors :: "nat \<Rightarrow> string list" where
  "getTeamColors numTeams = getTeamColors_loop numTeams 0 []"

text \<open>
  Names for the parts of the loop body, used to state its properties: the interpolation
  ratio of iteration \<open>i\<close>, the rounded channel between the endpoints \<open>a\<close> and \<open>b\<close>,
  and the colour string of three integer channels.
\<close>

definition teamRatio :: "nat \<Rightarrow> nat \<Rightarrow> number" where
  "teamRatio numTeams i = js_div (Fin (of_nat i)) (js_sub (Fin (of_nat numTeams)) (Fin 1))"

definition channel :: "rat \<Rightarrow> rat \<Rightarrow> number \<Rightarrow> rounded" where
  "channel a b ratio = math_round (js_add (Fin a) (js_mul (js_sub (Fin b) (Fin a)) ratio))"

definition rgb_string :: "int \<Rightarrow> int \<Rightarrow> int \<Rightarrow> string" where
  "rgb_string r g b =
     ''rgb('' @ to_string (RInt r) @ '','' @ to_string (RInt g) @ '','' @ to_string (RInt b) @ '')''"

text \<open>The integer a rounded value holds (0 for \<^verbatim>\<open>NaN\<close> and the infinities).\<close>

definition the_int :: "rounded \<Rightarrow> int" where
  "the_int v = (case v of RInt k \<Rightarrow> k | _ \<Rightarrow> 0)"

section \<open>Charts\<close>

text \<open>
  A JavaScript value as the layout, the configuration and the plotted data hold them.
  A trace is one series of \<^verbatim>\<open>plotDiv.data\<close>; the attributes the highlight handlers read
  (\<^verbatim>\<open>opacity\<close>, \<^verbatim>\<open>line\<close>, \<^verbatim>\<open>line.width\<close>) may be absent, which is \<open>None\<close>.
\<close>

datatype jsval = JStr string | JNum number | JBool bool | JArr "jsval list"
  | JObj "(string \<times> jsval) list"

record line_style =
  line_color :: "string option"
  line_width :: "number option"

record marker_style =
  marker_size :: number

record trace =
  trace_x :: jsval
  trace_y :: jsval
  trace_name :: string
  trace_type :: string
  trace_mode :: string
  trace_line :: "line_style option"
  trace_marker :: "marker_style option"
  trace_hovertemplate :: "string option"
  trace_opacity :: "number option"

section \<open>Highlight controller\<close>

text \<open>
  The state one call of \<^verbatim>\<open>setupHighlight\<close> closes over: the chart's series
  (\<^verbatim>\<open>plotDiv.data\<close>) and the two arrays of saved values, both empty at first.
\<close>

record highlight =
  plot_data :: "trace list"
  originalOpacities :: "number list"
  originalLineWidths :: "number list"

text \<open>The argument of one \<^verbatim>\<open>Plotly.restyle\<close> call: the two arrays of its update object.\<close>

record restyle_update =
  upd_opacity :: "number list"
  upd_line_width :: "number list"

text \<open>Reading an array element: \<^verbatim>\<open>undefined\<close> beyond the end.\<close>

definition js_nth :: "'a list \<Rightarrow> nat \<Rightarrow> 'a option" where
  "js_nth xs i = (if i < length xs then Some (xs ! i) else None)"

text \<open>The loop that saves the original values on the first hover.\<close>

function save_loop ::
  "trace list \<Rightarrow> nat \<Rightarrow> nat \<Rightarrow> number list \<times> number list \<Rightarrow> number list \<times> number list" where
  "save_loop data numTraces i (opacities, widths) =
     (if i < numTraces
      then save_loop data numTraces (i + 1)
        (opacities @ [js_or (trace_opacity (data ! i)) (Fin 1)],
         widths @ [case trace_line (data ! i) of
                     Some l \<Rightarrow> js_or (line_width l) (Fin 2)
                   | None \<Rightarrow> Fin 2])
      else (opacities, widths))"
  by pat_completeness auto
termination
  by (relation "measure (\<lambda>(data, numTraces, i, acc). numTraces - i)") auto

declare save_loop.simps [simp del]

text \<open>
  The loop that builds the update of a hover: the hovered trace emphasised, the others
  dimmed. The literal \<^verbatim>\<open>0.15\<close> is the double nearest to \<open>15 / 100\<close>; \<open>1.0\<close>, \<open>4\<close> and
  \<open>1.5\<close> are doubles themselves.
\<close>

function hover_loop ::
  "nat \<Rightarrow> nat \<Rightarrow> nat \<Rightarrow> number list \<times> number list \<Rightarrow> number list \<times> number list" where
  "hover_loop curveNumber numTraces i (opacityUpdate, widthUpdate) =
     (if i < numTraces
      then hover_loop curveNumber numTraces (i + 1)
        (if i = curveNumber
         then (opacityUpdate @ [Fin 1], widthUpdate @ [Fin 4])
         else (opacityUpdate @ [fl (15 / 100)], widthUpdate @ [Fin (3 / 2)]))
      else (opacityUpdate, widthUpdate))"
  by pat_completeness auto
termination
  by (relation "measure (\<lambda>(curveNumber, numTraces, i, acc). numTraces - i)") auto

declare hover_loop.simps [simp del]

text \<open>The loop that builds the update of an unhover from the saved values.\<close>

function unhover_loop ::
  "number list \<Rightarrow> number list \<Rightarrow> nat \<Rightarrow> nat \<Rightarrow> number list \<times> number list
     \<Rightarrow> number list \<times> number list" where
  "unhover_loop origOpacities origWidths numTraces i (opacityUpdate, widthUpdate) =
     (if i < numTraces
      then unhover_loop origOpacities origWidths numTraces (i + 1)
        (opacityUpdate @ [js_or (js_nth origOpacities i) (Fin 1)],
         widthUpdate @ [js_or (js_nth origWidths i) (Fin 2)])
      else (opacityUpdate, widthUpdate))"
  by pat_completeness auto
termination
  by (relation "measure (\<lambda>(origOpacities, origWidths, numTraces, i, acc). numTraces - i)") auto

declare unhover_loop.simps [simp del]

text \<open>
  \<^verbatim>\<open>Plotly.restyle\<close> belongs to the charting library. Its effect on the chart is the one
  the library documents for array values: trace \<open>i\<close> takes element \<open>i\<close> of each array
  (cycling through a shorter array), its \<^verbatim>\<open>line\<close> object being created when absent.
  The handlers always pass arrays as long as the chart has traces.
\<close>

definition restyle_trace :: "restyle_update \<Rightarrow> nat \<Rightarrow> trace \<Rightarrow> trace" where
  "restyle_trace u i t =
     (let t1 = (if upd_opacity u = [] then t
                else t\<lparr>trace_opacity := Some (upd_opacity u ! (i mod length (upd_opacity u)))\<rparr>);
          l = (case trace_line t1 of Some l \<Rightarrow> l
               | None \<Rightarrow> \<lparr>line_color = None, line_width = None\<rparr>)
      in if upd_line_width u = [] then t1
         else t1\<lparr>trace_line :=
           Some (l\<lparr>line_width := Some (upd_line_width u ! (i mod length (upd_line_width u)))\<rparr>)\<rparr>)"

definition restyle :: "trace list \<Rightarrow> restyle_update \<Rightarrow> trace list" where
  "restyle data u = map (\<lambda>(i, t). restyle_trace u i t) (enumerate 0 data)"

text \<open>
  The \<^verbatim>\<open>plotly_hover\<close> handler, for the event of a pointer over a point of trace
  \<^verbatim>\<open>curveNumber\<close> (\<^verbatim>\<open>data.points[0].curveNumber\<close>), and the \<^verbatim>\<open>plotly_unhover\<close> handler.
  Each returns the update object of its one \<^verbatim>\<open>Plotly.restyle\<close> call and the state after it.
\<close>

definition plotly_hover :: "nat \<Rightarrow> highlight \<Rightarrow> restyle_update \<times> highlight" where
  "plotly_hover curveNumber st =
     (let numTraces = length (plot_data st);
          saved = (if length (originalOpacities st) = 0
                   then save_loop (plot_data st) numTraces 0
                          (originalOpacities st, originalLineWidths st)
                   else (originalOpacities st, originalLineWidths st));
          update = hover_loop curveNumber numTraces 0 ([], []);
          u = \<lparr>upd_opacity = fst update, upd_line_width = snd update\<rparr>
      in (u, \<lparr>plot_data = restyle (plot_data st) u,
               originalOpacities = fst saved, originalLineWidths = snd saved\<rparr>))"

definition plotly_unhover :: "highlight \<Rightarrow> restyle_update \<times> highlight" where
  "plotly_unhover st =
     (let numTraces = length (plot_data st);
          update = unhover_loop (originalOpacities st) (originalLineWidths st) numTraces 0 ([], []);
          u = \<lparr>upd_opacity = fst update, upd_line_width = snd update\<rparr>
      in (u, st\<lparr>plot_data := restyle (plot_data st) u\<rparr>))"

text \<open>
  What can happen to a chart with the handlers attached: the two pointer events, and
  code outside this file replacing the chart's series.
\<close>

datatype event = Hover nat | Unhover | SetData "trace list"

fun step :: "event \<Rightarrow> highlight \<Rightarrow> restyle_update option \<times> highlight" where
  "step (Hover curveNumber) st = (case plotly_hover curveNumber st of (u, st') \<Rightarrow> (Some u, st'))"
| "step Unhover st = (case plotly_unhover st of (u, st') \<Rightarrow> (Some u, st'))"
| "step (SetData traces) st = (None, st\<lparr>plot_data := traces\<rparr>)"

text \<open>The state after a sequence of events, and the last \<^verbatim>\<open>Plotly.restyle\<close> call made during it.\<close>

fun run :: "event list \<Rightarrow> highlight \<Rightarrow> highlight" where
  "run [] st = st"
| "run (e # es) st = run es (snd (step e st))"

fun last_update :: "event list \<Rightarrow> highlight \<Rightarrow> restyle_update option \<Rightarrow> restyle_update option" where
  "last_update [] st u = u"
| "last_update (e # es) st u =
     (case step e st of
        (Some u', st') \<Rightarrow> last_update es st' (Some u')
      | (None, st') \<Rightarrow> last_update es st' u)"

text \<open>
  The page: its elements by id, the warnings written to the console, and the event
  subscriptions made with \<^verbatim>\<open>plotDiv.on\<close>, as pairs of element id and event name. Only an
  element that holds a chart has \<^verbatim>\<open>on\<close>; calling it on another element is a
  \<^verbatim>\<open>TypeError\<close>.
\<close>

datatype js_error = TypeError

record element =
  el_data :: "trace list option"

record page =
  elements :: "string \<rightharpoonup> element"
  console :: "string list"
  listeners :: "(string \<times> string) list"

definition setupHighlight :: "string \<Rightarrow> page \<Rightarrow> js_error + page" where
  "setupHighlight plotId pg =
     (case elements pg plotId of
        None \<Rightarrow> Inr (pg\<lparr>console := console pg @ [''Plot element not found: '' @ plotId]\<rparr>)
      | Some plotDiv \<Rightarrow>
          (case el_data plotDiv of
             None \<Rightarrow> Inl TypeError
           | Some data \<Rightarrow>
               Inr (pg\<lparr>listeners := listeners pg @
                      [(plotId, ''plotly_hover''), (plotId, ''plotly_unhover'')]\<rparr>)))"

text \<open>The state of the handlers right after \<^verbatim>\<open>setupHighlight\<close> on a chart with the series \<open>data\<close>.\<close>

definition highlight_init :: "trace list \<Rightarrow> highlight" where
  "highlight_init data = \<lparr>plot_data = data, originalOpacities = [], originalLineWidths = []\<rparr>"

fun setupAllHighlights :: "string list \<Rightarrow> page \<Rightarrow> js_error + page" where
  "setupAllHighlights [] pg = Inr pg"
| "setupAllHighlights (plotId # plotIds) pg =
     (case setupHighlight plotId pg of
        Inl e \<Rightarrow> Inl e
      | Inr pg' \<Rightarrow> setupAllHighlights plotIds pg')"

section \<open>Chart factory\<close>

definition defaultLayout :: "string \<rightharpoonup> jsval" where
  "defaultLayout = map_of
     [(''font'', JObj [(''family'',
         JStr ''-apple-system, BlinkMacSystemFont, 'Segoe UI', Roboto, sans-serif'')]),
      (''paper_bgcolor'', JStr ''rgba(0,0,0,0)''),
      (''plot_bgcolor'', JStr ''rgba(0,0,0,0)''),
      (''margin'', JObj [(''t'', JNum (Fin 50)), (''r'', JNum (Fin 30)),
                         (''b'', JNum (Fin 50)), (''l'', JNum (Fin 60))]),
      (''hovermode'', JStr ''closest''),
      (''legend'', JObj [(''orientation'', JStr ''v''), (''x'', JNum (fl (102 / 100))),
                         (''y'', JNum (Fin 1)), (''bgcolor'', JStr ''rgba(255,255,255,0.9)''),
                         (''bordercolor'', JStr ''#ddd''), (''borderwidth'', JNum (Fin 1))])]"

definition defaultConfig :: "string \<rightharpoonup> jsval" where
  "defaultConfig = map_of
     [(''responsive'', JBool True),
      (''displayModeBar'', JBool True),
      (''modeBarButtonsToRemove'', JArr [JStr ''lasso2d'', JStr ''select2d'']),
      (''displaylogo'', JBool False)]"

text \<open>
  \<^verbatim>\<open>Object.assign(target, ...sources)\<close>: the own properties of each source in turn are
  written over the target's. An omitted \<^verbatim>\<open>layout\<close> argument contributes no property,
  like the empty object.
\<close>

fun object_assign :: "(string \<rightharpoonup> jsval) \<Rightarrow> (string \<rightharpoonup> jsval) list \<Rightarrow> (string \<rightharpoonup> jsval)" where
  "object_assign target [] = target"
| "object_assign target (source # sources) = object_assign (target ++ source) sources"

record team =
  team_name :: string
  team_y :: jsval
  team_color :: string

record chart_data =
  data_x :: jsval
  data_teams :: "team list"
  data_xLabel :: string
  data_yLabel :: string

text \<open>The arguments of the \<^verbatim>\<open>Plotly.newPlot\<close> call, and what runs once the plot is drawn.\<close>

record newPlot_call =
  np_target :: string
  np_traces :: "trace list"
  np_layout :: "string \<rightharpoonup> jsval"
  np_config :: "string \<rightharpoonup> jsval"
  np_then :: "page \<Rightarrow> js_error + page"

text \<open>The function mapped over \<^verbatim>\<open>data.teams\<close>.\<close>

definition team_trace :: "chart_data \<Rightarrow> team \<Rightarrow> trace" where
  "team_trace data team =
     \<lparr>trace_x = data_x data,
      trace_y = team_y team,
      trace_name = team_name team,
      trace_type = ''scatter'',
      trace_mode = ''lines+markers'',
      trace_line = Some \<lparr>line_color = Some (team_color team), line_width = Some (Fin 2)\<rparr>,
      trace_marker = Some \<lparr>marker_size = Fin 6\<rparr>,
      trace_hovertemplate = Some (''<b>'' @ team_name team @ ''</b><br>'' @
                                  data_xLabel data @ '': %{x}<br>'' @
                                  data_yLabel data @ '': %{y:.1f}<extra></extra>''),
      trace_opacity = None\<rparr>"

definition createTeamLineChart :: "string \<Rightarrow> chart_data \<Rightarrow> (string \<rightharpoonup> jsval) \<Rightarrow> newPlot_call" where
  "createTeamLineChart plotId data layout =
     (let traces = map (team_trace data) (data_teams data);
          fullLayout = object_assign Map.empty [defaultLayout, layout]
      in \<lparr>np_target = plotId, np_traces = traces, np_layout = fullLayout,
          np_config = defaultConfig, np_then = setupHighlight plotId\<rparr>)"

section \<open>Sample inputs\<close>

text \<open>Concrete traces and charts on which the theorems below are instantiated.\<close>

definition sample_trace :: "number option \<Rightarrow> number option \<Rightarrow> trace" where
  "sample_trace op w =
     \<lparr>trace_x = JArr [JNum (Fin 1), JNum (Fin 2)],
      trace_y = JArr [JNum (Fin 10), JNum (Fin 20)],
      trace_name = ''Team'',
      trace_type = ''scatter'',
      trace_mode = ''lines+markers'',
      trace_line = Some \<lparr>line_color = Some ''#3498db'', line_width = w\<rparr>,
      trace_marker = Some \<lparr>marker_size = Fin 6\<rparr>,
      trace_hovertemplate = None,
      trace_opacity = op\<rparr>"

definition sample_chart :: "trace list" where
  "sample_chart = [sample_trace None (Some (Fin 2)), sample_trace (Some (Fin (1 / 2))) (Some (Fin 3)),
                   sample_trace None None]"

definition hidden_chart :: "trace list" where
  "hidden_chart = [sample_trace (Some (Fin (1 / 2))) (Some (Fin 3)),
                   sample_trace (Some (Fin 0)) (Some (Fin 0))]"

definition empty_page :: page where
  "empty_page = \<lparr>elements = Map.empty, console = [], listeners = []\<rparr>"

definition sample_data :: chart_data where
  "sample_data =
     \<lparr>data_x = JArr [JNum (Fin 1), JNum (Fin 2)],
      data_teams = [\<lparr>team_name = ''Aces'', team_y = JArr [JNum (Fin 90), JNum (Fin 110)],
                      team_color = ''rgb(52,152,219)''\<rparr>,
                    \<lparr>team_name = ''Bears'', team_y = JArr [JNum (Fin 80), JNum (Fin 95)],
                      team_color = ''rgb(231,76,60)''\<rparr>],
      data_xLabel = ''Week'',
      data_yLabel = ''Points''\<rparr>"

definition sample_layout :: "string \<rightharpoonup> jsval" where
  "sample_layout = [''margin'' \<mapsto> JObj [(''t'', JNum (Fin 10))], ''title'' \<mapsto> JStr ''Points'']"

section \<open>Properties of the rounding model\<close>

subsection \<open>Powers of two and the binary exponent\<close>

lemma pow2_powi: "pow2 e = 2 powi e"
  by (simp add: pow2_def power_int_def inverse_eq_divide power_one_over)

lemma pow2_pos: "0 < pow2 e"
  by (simp add: pow2_powi)

lemma pow2_add: "pow2 (a + b) = pow2 a * pow2 b"
  by (simp add: pow2_powi power_int_add)

lemma pow2_mono: "a \<le> b \<Longrightarrow> pow2 a \<le> pow2 b"
  by (simp add: pow2_powi power_int_increasing)

lemma pow2_strict_mono: "a < b \<Longrightarrow> pow2 a < pow2 b"
  by (simp add: pow2_powi power_int_strict_increasing)

lemma pow2_nat: "pow2 (int n) = 2 ^ n"
  by (simp add: pow2_def)

lemma ilog2_bounds: "0 < n \<Longrightarrow> 2 ^ ilog2 n \<le> n \<and> n < 2 ^ (ilog2 n + 1)"
proof (induction n rule: ilog2.induct)
  case (1 n)
  show ?case
  proof (cases "n < 2")
    case True
    then have "ilog2 n = 0" by (subst ilog2.simps) simp
    with "1.prems" True show ?thesis by simp
  next
    case False
    then have pos: "0 < n div 2" by simp
    from "1.IH" [OF False pos]
    have lo: "2 ^ ilog2 (n div 2) \<le> n div 2" and hi: "n div 2 < 2 ^ (ilog2 (n div 2) + 1)"
      by simp_all
    have eq: "ilog2 n = Suc (ilog2 (n div 2))" using False by (subst ilog2.simps) simp
    from lo have "2 * 2 ^ ilog2 (n div 2) \<le> n" by linarith
    moreover from hi have "n < 2 * 2 ^ (ilog2 (n div 2) + 1)" by linarith
    ultimately show ?thesis unfolding eq by simp
  qed
qed

lemma pow2_diff_nat: "pow2 (int a - int b) = 2 ^ a / 2 ^ b"
  by (simp add: pow2_powi power_int_diff)

lemma expo_bounds:
  assumes "0 < x"
  shows "pow2 (expo x) \<le> x" and "x < pow2 (expo x + 1)"
proof -
  obtain p q where pq: "quotient_of x = (p, q)" by (cases "quotient_of x")
  then have q: "0 < q" and x: "x = of_int p / of_int q"
    using quotient_of_denom_pos quotient_of_div by auto
  from assms x q have p: "0 < p"
    by (simp add: zero_less_divide_iff)
  define a where "a = ilog2 (nat p)"
  define b where "b = ilog2 (nat q)"
  from ilog2_bounds [of "nat p"] p
  have pa: "2 ^ a \<le> nat p" "nat p < 2 ^ (a + 1)" by (simp_all add: a_def)
  from ilog2_bounds [of "nat q"] q
  have qb: "2 ^ b \<le> nat q" "nat q < 2 ^ (b + 1)" by (simp_all add: b_def)
  have xn: "x = of_nat (nat p) / of_nat (nat q)"
    using x p q by simp
  have qpos: "(0::rat) < of_nat (nat q)" using q by simp
  have plo: "(2::rat) ^ a \<le> of_nat (nat p)"
    using pa(1) by (metis of_nat_le_iff of_nat_numeral of_nat_power)
  have phi: "of_nat (nat p) < (2::rat) ^ (a + 1)"
    using pa(2) by (metis of_nat_less_iff of_nat_numeral of_nat_power)
  have qlo: "(2::rat) ^ b \<le> of_nat (nat q)"
    using qb(1) by (metis of_nat_le_iff of_nat_numeral of_nat_power)
  have qhi: "of_nat (nat q) < (2::rat) ^ (b + 1)"
    using qb(2) by (metis of_nat_less_iff of_nat_numeral of_nat_power)
  have lower: "pow2 (int a - int b - 1) \<le> x"
  proof -
    have "pow2 (int a - int b - 1) = 2 ^ a / 2 ^ (b + 1)"
      using pow2_diff_nat [of a "b + 1"] by (simp add: algebra_simps)
    also have "\<dots> \<le> of_nat (nat p) / 2 ^ (b + 1)"
      using plo by (simp add: divide_right_mono)
    also have "\<dots> \<le> of_nat (nat p) / of_nat (nat q)"
      using qhi qpos by (intro divide_left_mono) (simp_all add: less_imp_le)
    finally show ?thesis by (simp add: xn)
  qed
  have upper: "x < pow2 (int a - int b + 1)"
  proof -
    have "x \<le> of_nat (nat p) / 2 ^ b"
      unfolding xn using qlo qpos by (intro divide_left_mono) simp_all
    also have "\<dots> < 2 ^ (a + 1) / 2 ^ b"
      using phi by (simp add: divide_strict_right_mono)
    also have "\<dots> = pow2 (int a - int b + 1)"
      using pow2_diff_nat [of "a + 1" b] by (simp add: algebra_simps)
    finally show ?thesis .
  qed
  have e: "expo x = (if pow2 (int a - int b) \<le> x then int a - int b else int a - int b - 1)"
    by (simp add: expo_def pq a_def b_def Let_def)
  show "pow2 (expo x) \<le> x"
    using lower by (simp add: e)
  show "x < pow2 (expo x + 1)"
    using upper by (simp add: e not_le)
qed

lemma expo_unique:
  assumes "pow2 e \<le> x" "x < pow2 (e + 1)"
  shows "expo x = e"
proof -
  have pos: "0 < x" using assms(1) pow2_pos [of e] by linarith
  note b = expo_bounds [OF pos]
  have "pow2 e < pow2 (expo x + 1)" using assms(1) b(2) by linarith
  then have "e < expo x + 1"
    by (meson not_le pow2_mono leD)
  moreover have "pow2 (expo x) < pow2 (e + 1)" using assms(2) b(1) by linarith
  then have "expo x < e + 1"
    by (meson not_le pow2_mono leD)
  ultimately show ?thesis by linarith
qed

lemma rhe_error: "\<bar>of_int (rhe y) - y\<bar> \<le> 1 / 2"
proof -
  have "of_int \<lfloor>y\<rfloor> \<le> y" "y < of_int \<lfloor>y\<rfloor> + 1" by linarith+
  then show ?thesis
    by (auto simp: rhe_def Let_def abs_le_iff)
qed

lemma rhe_of_int: "rhe (of_int k) = k"
  by (simp add: rhe_def)

lemma rhe_eqI: "\<bar>y - of_int m\<bar> < 1 / 2 \<Longrightarrow> rhe y = m"
proof -
  assume a: "\<bar>y - of_int m\<bar> < 1 / 2"
  have e: "\<bar>of_int (rhe y) - y\<bar> \<le> 1 / 2" by (rule rhe_error)
  have "\<bar>(of_int (rhe y) :: rat) - of_int m\<bar> < 1" using a e by linarith
  then have "\<bar>(of_int (rhe y - m) :: rat)\<bar> < 1" by simp
  then have "\<bar>rhe y - m\<bar> < 1" 
    by (metis of_int_abs of_int_less_1_iff)
  then show ?thesis by linarith
qed

subsection \<open>The error of one rounding\<close>

lemma expo_less: "0 < x \<Longrightarrow> x < pow2 k \<Longrightarrow> expo x < k"
  using expo_bounds(1) [of x] pow2_mono [of k "expo x"] by (meson leD leI le_less_trans)

lemma expo_ge: "pow2 k \<le> x \<Longrightarrow> k \<le> expo x"
proof -
  assume a: "pow2 k \<le> x"
  then have pos: "0 < x" using pow2_pos [of k] by linarith
  have "pow2 k < pow2 (expo x + 1)" using a expo_bounds(2) [OF pos] by linarith
  then have "k < expo x + 1" by (meson not_le pow2_mono leD)
  then show ?thesis by simp
qed

lemma pow2_half: "pow2 (e - 52) / 2 = pow2 (e - 53)"
proof -
  have "pow2 (e - 52) = pow2 (e - 53) * pow2 1"
    using pow2_add [of "e - 53" 1] by simp
  then show ?thesis by (simp add: pow2_def)
qed

lemma fl_error:
  assumes "\<bar>x\<bar> < pow2 1023"
  shows "\<exists>r. fl x = Fin r \<and> \<bar>r - x\<bar> \<le> \<bar>x\<bar> * pow2 (- 53) + pow2 (- 1075)"
proof (cases "x = 0")
  case True
  then show ?thesis using pow2_pos [of "- 1075"] by (simp add: fl_def less_imp_le)
next
  case False
  define e where "e = max (expo \<bar>x\<bar>) (- 1022)"
  define u where "u = pow2 (e - 52)"
  define r where "r = of_int (rhe (x / u)) * u"
  have pos: "0 < \<bar>x\<bar>" using False by simp
  have upos: "0 < u" by (simp add: u_def pow2_pos)
  have "\<bar>r - x\<bar> = \<bar>of_int (rhe (x / u)) - x / u\<bar> * u"
  proof -
    have "r - x = (of_int (rhe (x / u)) - x / u) * u"
      using upos by (simp add: r_def algebra_simps)
    then show ?thesis using upos by (simp add: abs_mult)
  qed
  also have "\<dots> \<le> (1 / 2) * u"
    using rhe_error [of "x / u"] upos by (intro mult_right_mono) simp_all
  also have "\<dots> = pow2 (e - 53)"
    using pow2_half [of e] by (simp add: u_def)
  finally have err: "\<bar>r - x\<bar> \<le> pow2 (e - 53)" .
  have ebound: "pow2 (e - 53) \<le> \<bar>x\<bar> * pow2 (- 53) + pow2 (- 1075)"
  proof (cases "- 1022 \<le> expo \<bar>x\<bar>")
    case True
    then have "e = expo \<bar>x\<bar>" by (simp add: e_def)
    then have "pow2 (e - 53) = pow2 (expo \<bar>x\<bar>) * pow2 (- 53)"
      using pow2_add [of "expo \<bar>x\<bar>" "- 53"] by simp
    also have "\<dots> \<le> \<bar>x\<bar> * pow2 (- 53)"
      using expo_bounds(1) [OF pos] pow2_pos [of "- 53"] by (simp add: mult_right_mono)
    finally show ?thesis using pow2_pos [of "- 1075"] by linarith
  next
    case False
    then have "e = - 1022" by (simp add: e_def)
    then have "pow2 (e - 53) = pow2 (- 1075)" by simp
    moreover have "0 \<le> \<bar>x\<bar> * pow2 (- 53)" using pow2_pos [of "- 53"] by simp
    ultimately show ?thesis by linarith
  qed
  have "expo \<bar>x\<bar> < 1023" using expo_less [OF pos assms] .
  then have "e - 53 \<le> 1022" by (simp add: e_def)
  then have "pow2 (e - 53) \<le> pow2 1022" by (rule pow2_mono)
  moreover have "pow2 1023 + pow2 1022 \<le> pow2 1024"
  proof -
    have "pow2 1023 = pow2 1022 * 2" using pow2_add [of 1022 1] by (simp add: pow2_def)
    moreover have "pow2 1024 = pow2 1022 * 4" using pow2_add [of 1022 2] by (simp add: pow2_def)
    ultimately show ?thesis using pow2_pos [of 1022] by linarith
  qed
  ultimately have "\<bar>r\<bar> < pow2 1024" using err assms by linarith
  then have "fl x = Fin r"
    using False by (simp add: fl_def Let_def e_def [symmetric] u_def [symmetric] r_def [symmetric])
  with err ebound show ?thesis by auto
qed

lemma fl_of_int:
  assumes "\<bar>k\<bar> < 2 ^ 53"
  shows "fl (of_int k) = Fin (of_int k)"
proof (cases "k = 0")
  case True
  then show ?thesis by (simp add: fl_def)
next
  case False
  define x :: rat where "x = of_int k"
  define e where "e = max (expo \<bar>x\<bar>) (- 1022)"
  define u where "u = pow2 (e - 52)"
  have x1: "pow2 0 \<le> \<bar>x\<bar>" using False by (simp add: x_def pow2_def flip: of_int_abs)
  have x2: "\<bar>x\<bar> < pow2 53"
  proof -
    have "(of_int \<bar>k\<bar> :: rat) < of_int (2 ^ 53)" using assms by (simp only: of_int_less_iff)
    then show ?thesis by (simp add: x_def pow2_def)
  qed
  have pos: "0 < \<bar>x\<bar>" using x1 pow2_pos [of 0] by linarith
  have e0: "0 \<le> expo \<bar>x\<bar>" using expo_ge [OF x1] .
  have e53: "expo \<bar>x\<bar> < 53" using expo_less [OF pos x2] .
  have e: "e = expo \<bar>x\<bar>" using e0 by (simp add: e_def)
  define j where "j = nat (52 - e)"
  have "pow2 (e - 52) * pow2 (int j) = pow2 0"
    using pow2_add [of "e - 52" "int j"] e e53 by (simp add: j_def)
  then have u: "u * 2 ^ j = 1" by (simp add: u_def pow2_nat pow2_def)
  then have u': "u = 1 / 2 ^ j"
    by (simp add: field_simps)
  have xu: "x / u = of_int (k * 2 ^ j)"
    by (simp add: x_def u')
  have "of_int (rhe (x / u)) * u = x"
    unfolding xu rhe_of_int using u by (simp add: x_def algebra_simps)
  moreover have "\<not> pow2 1024 \<le> \<bar>x\<bar>"
    using x2 pow2_mono [of 53 1024] by simp
  ultimately show ?thesis
    using False
    by (simp add: fl_def Let_def x_def [symmetric] e_def [symmetric] u_def [symmetric])
qed

lemma fl_of_nat: "n < 2 ^ 53 \<Longrightarrow> fl (of_nat n) = Fin (of_nat n)"
  using fl_of_int [of "int n"] by simp

subsection \<open>The interpolation ratio and one channel\<close>

lemma fl_error_small:
  assumes "\<bar>x\<bar> \<le> 4096"
  shows "\<exists>r. fl x = Fin r \<and> \<bar>r - x\<bar> \<le> (\<bar>x\<bar> + 1) * pow2 (- 53)"
proof -
  have "(4096::rat) < pow2 1023"
  proof -
    have "(4096::rat) = pow2 12" by (simp add: pow2_def)
    then show ?thesis using pow2_strict_mono [of 12 1023] by simp
  qed
  then have "\<bar>x\<bar> < pow2 1023" using assms by linarith
  from fl_error [OF this] obtain r where
    r: "fl x = Fin r" "\<bar>r - x\<bar> \<le> \<bar>x\<bar> * pow2 (- 53) + pow2 (- 1075)" by blast
  have "pow2 (- 1075) \<le> pow2 (- 53)" by (rule pow2_mono) simp
  moreover have "(\<bar>x\<bar> + 1) * pow2 (- 53) = \<bar>x\<bar> * pow2 (- 53) + pow2 (- 53)"
    by (simp add: distrib_right)
  ultimately have "\<bar>r - x\<bar> \<le> (\<bar>x\<bar> + 1) * pow2 (- 53)" using r(2) by linarith
  with r(1) show ?thesis by blast
qed

lemma js_sub_nat_one:
  assumes "1 \<le> n" "n < 2 ^ 53"
  shows "js_sub (Fin (of_nat n)) (Fin 1) = Fin (of_nat (n - 1))"
proof -
  obtain m where m: "n = Suc m" using assms(1) by (cases n) simp_all
  have "m < 2 ^ 53" using assms(2) m by linarith
  then have "fl (of_nat m) = Fin (of_nat m)" by (rule fl_of_nat)
  then show ?thesis by (simp add: js_sub_def m)
qed


lemma js_sub_ints:
  assumes "\<bar>b - a\<bar> < 2 ^ 53"
  shows "js_sub (Fin (of_int b)) (Fin (of_int a)) = Fin (of_int (b - a))"
  using fl_of_int [OF assms] by (simp add: js_sub_def)

lemma ratio_error:
  assumes "2 \<le> n" "n < 2 ^ 53" "i < n"
  shows "\<exists>\<rho>. js_div (Fin (of_nat i)) (js_sub (Fin (of_nat n)) (Fin 1)) = Fin \<rho>
           \<and> \<bar>\<rho> - of_nat i / of_nat (n - 1)\<bar> \<le> 2 * pow2 (- 53)"
proof -
  define q :: rat where "q = of_nat i / of_nat (n - 1)"
  have "0 < n - 1" using assms(1) by linarith
  then have npos: "(0::rat) < of_nat (n - 1)" by (simp only: of_nat_0_less_iff)
  have q0: "0 \<le> q" by (simp add: q_def)
  have q1: "q \<le> 1"
  proof -
    have "i \<le> n - 1" using assms(3) by linarith
    then have "(of_nat i :: rat) \<le> of_nat (n - 1)" by (simp only: of_nat_le_iff)
    then show ?thesis using npos by (simp add: q_def)
  qed
  have "\<bar>q\<bar> \<le> 4096" using q0 q1 by simp
  from fl_error_small [OF this] obtain \<rho> where
    r: "fl q = Fin \<rho>" "\<bar>\<rho> - q\<bar> \<le> (\<bar>q\<bar> + 1) * pow2 (- 53)" by blast
  have "(\<bar>q\<bar> + 1) * pow2 (- 53) \<le> 2 * pow2 (- 53)"
    using q0 q1 pow2_pos [of "- 53"] by (intro mult_right_mono) simp_all
  with r(2) have "\<bar>\<rho> - q\<bar> \<le> 2 * pow2 (- 53)" by linarith
  moreover have sub: "js_sub (Fin (of_nat n)) (Fin 1) = Fin (of_nat (n - 1))"
  proof (rule js_sub_nat_one)
    show "1 \<le> n" using assms(1) by linarith
    show "n < 2 ^ 53" by (rule assms(2))
  qed
  have "js_div (Fin (of_nat i)) (js_sub (Fin (of_nat n)) (Fin 1)) = Fin \<rho>"
    unfolding sub using npos r(1) by (simp add: q_def)
  ultimately show ?thesis by (auto simp: q_def)
qed

lemma channel_error:
  fixes a b :: int and \<rho> q :: rat
  assumes rq: "\<bar>\<rho> - q\<bar> \<le> 2 * pow2 (- 53)"
    and q: "0 \<le> q" "q \<le> 1"
    and a: "\<bar>a\<bar> \<le> 256" and d: "\<bar>b - a\<bar> \<le> 256"
  shows "\<exists>\<sigma>. js_add (Fin (of_int a)) (js_mul (js_sub (Fin (of_int b)) (Fin (of_int a))) (Fin \<rho>)) = Fin \<sigma>
           \<and> \<bar>\<sigma> - (of_int a + of_int (b - a) * q)\<bar> \<le> pow2 (- 42)"
proof -
  define \<delta> where "\<delta> = pow2 (- 53)"
  define dd :: rat where "dd = of_int (b - a)"
  define aa :: rat where "aa = of_int a"
  have \<delta>: "0 < \<delta>" "\<delta> \<le> 1 / 8"
  proof -
    show "0 < \<delta>" by (simp add: \<delta>_def pow2_pos)
    have "pow2 (- 53) \<le> pow2 (- 3)" by (rule pow2_mono) simp
    then show "\<delta> \<le> 1 / 8" by (simp add: \<delta>_def pow2_def)
  qed
  have dd: "\<bar>dd\<bar> \<le> 256"
  proof -
    have "(of_int \<bar>b - a\<bar> :: rat) \<le> of_int 256" using d by (simp only: of_int_le_iff)
    then show ?thesis by (simp add: dd_def)
  qed
  have aa: "\<bar>aa\<bar> \<le> 256"
  proof -
    have "(of_int \<bar>a\<bar> :: rat) \<le> of_int 256" using a by (simp only: of_int_le_iff)
    then show ?thesis by (simp add: aa_def)
  qed
  have rq': "\<bar>\<rho> - q\<bar> \<le> 2 * \<delta>" using rq by (simp add: \<delta>_def)
  have rho: "\<bar>\<rho>\<bar> \<le> 5 / 4" using rq' q \<delta> by linarith
  have sub: "js_sub (Fin (of_int b)) (Fin (of_int a)) = Fin dd"
    unfolding dd_def using d by (intro js_sub_ints) simp
  have prod: "\<bar>dd * \<rho>\<bar> \<le> 320"
  proof -
    have "\<bar>dd\<bar> * \<bar>\<rho>\<bar> \<le> 256 * (5 / 4)"
      using dd rho by (intro mult_mono) simp_all
    then show ?thesis by (simp add: abs_mult)
  qed
  then have "\<bar>dd * \<rho>\<bar> \<le> 4096" by linarith
  from fl_error_small [OF this] obtain \<pi> where
    p: "fl (dd * \<rho>) = Fin \<pi>" "\<bar>\<pi> - dd * \<rho>\<bar> \<le> (\<bar>dd * \<rho>\<bar> + 1) * \<delta>"
    unfolding \<delta>_def by blast
  have "(\<bar>dd * \<rho>\<bar> + 1) * \<delta> \<le> 321 * \<delta>"
    using prod \<delta>(1) by (intro mult_right_mono) simp_all
  with p(2) have perr: "\<bar>\<pi> - dd * \<rho>\<bar> \<le> 321 * \<delta>" by linarith
  have pbound: "\<bar>aa + \<pi>\<bar> \<le> 617" using perr prod aa \<delta> by linarith
  then have "\<bar>aa + \<pi>\<bar> \<le> 4096" by linarith
  from fl_error_small [OF this] obtain \<sigma> where
    s: "fl (aa + \<pi>) = Fin \<sigma>" "\<bar>\<sigma> - (aa + \<pi>)\<bar> \<le> (\<bar>aa + \<pi>\<bar> + 1) * \<delta>"
    unfolding \<delta>_def by blast
  have "(\<bar>aa + \<pi>\<bar> + 1) * \<delta> \<le> 618 * \<delta>"
    using pbound \<delta>(1) by (intro mult_right_mono) simp_all
  with s(2) have serr: "\<bar>\<sigma> - (aa + \<pi>)\<bar> \<le> 618 * \<delta>" by linarith
  have rerr: "\<bar>dd * \<rho> - dd * q\<bar> \<le> 512 * \<delta>"
  proof -
    have "dd * \<rho> - dd * q = dd * (\<rho> - q)"
      by (simp add: right_diff_distrib)
    then have "\<bar>dd * \<rho> - dd * q\<bar> = \<bar>dd\<bar> * \<bar>\<rho> - q\<bar>"
      by (simp only: abs_mult)
    also have "\<dots> \<le> 256 * (2 * \<delta>)"
      using dd rq' \<delta>(1) by (intro mult_mono) simp_all
    finally show ?thesis by simp
  qed
  have "\<bar>\<sigma> - (aa + dd * q)\<bar> \<le> 1451 * \<delta>"
    using serr perr rerr by linarith
  also have "\<dots> \<le> 2048 * \<delta>" using \<delta>(1) by simp
  also have "\<dots> = pow2 (- 42)"
    using pow2_add [of "- 53" 11] by (simp add: \<delta>_def pow2_def)
  finally have "\<bar>\<sigma> - (aa + dd * q)\<bar> \<le> pow2 (- 42)" .
  moreover have "js_add (Fin (of_int a)) (js_mul (js_sub (Fin (of_int b)) (Fin (of_int a))) (Fin \<rho>)) = Fin \<sigma>"
    using sub p(1) s(1) by (simp add: aa_def)
  ultimately show ?thesis by (auto simp: aa_def dd_def)
qed

subsection \<open>Rounding to an integer\<close>

lemma eps_bound:
  fixes N :: nat
  assumes "N \<le> 2 ^ 32"
  shows "pow2 (- 42) * of_nat (2 * N) < 1"
proof -
  have "(of_nat N :: rat) \<le> of_nat (2 ^ 32)" using assms by (simp only: of_nat_le_iff)
  then have "(of_nat N :: rat) \<le> 2 ^ 32" by simp
  then have "pow2 (- 42) * of_nat (2 * N) \<le> pow2 (- 42) * (2 * 2 ^ 32)"
    using pow2_pos [of "- 42"] by (intro mult_left_mono) simp_all
  also have "\<dots> < 1" by (simp add: pow2_def)
  finally show ?thesis .
qed

lemma round_nearest:
  fixes \<sigma> x :: rat and N :: nat and m :: int
  assumes err: "\<bar>\<sigma> - x\<bar> \<le> pow2 (- 42)"
    and N: "0 < N" "N \<le> 2 ^ 32"
    and grid: "x * of_nat (2 * N) = of_int m"
  shows "\<bar>of_int \<lfloor>\<sigma> + 1 / 2\<rfloor> - x\<bar> \<le> 1 / 2"
proof -
  define c where "c = \<lfloor>\<sigma> + 1 / 2\<rfloor>"
  define \<epsilon> where "\<epsilon> = pow2 (- 42)"
  define W :: rat where "W = of_nat (2 * N)"
  have W: "0 < W" using N(1) by (simp add: W_def)
  have eW: "\<epsilon> * W < 1" unfolding \<epsilon>_def W_def by (rule eps_bound [OF N(2)])
  have c1: "of_int c \<le> \<sigma> + 1 / 2" unfolding c_def by (rule of_int_floor_le)
  have c2: "\<sigma> + 1 / 2 < of_int c + 1" unfolding c_def by linarith
  have up: "of_int c - x \<le> 1 / 2 + \<epsilon>" using c1 err unfolding \<epsilon>_def by linarith
  have lo: "- (1 / 2) - \<epsilon> < of_int c - x" using c2 err unfolding \<epsilon>_def by linarith
  have M: "(of_int c - x) * W = of_int (c * int (2 * N) - m)"
    using grid by (simp add: W_def algebra_simps)
  have halfW: "(1 / 2) * W = of_int (int N)" by (simp add: W_def)
  have "(of_int c - x) * W \<le> (1 / 2 + \<epsilon>) * W"
    using up W by (intro mult_right_mono) simp_all
  also have "\<dots> = of_int (int N) + \<epsilon> * W" using halfW by (simp add: distrib_right)
  also have "\<dots> < of_int (int N) + 1" using eW by simp
  finally have "(of_int (c * int (2 * N) - m) :: rat) < of_int (int N + 1)"
    unfolding M by simp
  then have "c * int (2 * N) - m < int N + 1" by (simp only: of_int_less_iff)
  then have "c * int (2 * N) - m \<le> int N" by simp
  then have "(of_int (c * int (2 * N) - m) :: rat) \<le> of_int (int N)"
    by (simp only: of_int_le_iff)
  then have "(of_int c - x) * W \<le> (1 / 2) * W" unfolding M halfW .
  then have upper: "of_int c - x \<le> 1 / 2" using W by (simp only: mult_le_cancel_right_pos)
  have "(- (1 / 2) - \<epsilon>) * W < (of_int c - x) * W"
    using lo W by (simp only: mult_less_cancel_right_pos)
  moreover have "(- (1 / 2) - \<epsilon>) * W = - of_int (int N) - \<epsilon> * W"
    using halfW by (simp add: algebra_simps)
  ultimately have "- of_int (int N) - 1 < (of_int c - x) * W" using eW by linarith
  then have "(of_int (- int N - 1) :: rat) < of_int (c * int (2 * N) - m)"
    unfolding M by simp
  then have "- int N - 1 < c * int (2 * N) - m" by (simp only: of_int_less_iff)
  then have "- int N \<le> c * int (2 * N) - m" by simp
  then have "(of_int (- int N) :: rat) \<le> of_int (c * int (2 * N) - m)"
    by (simp only: of_int_le_iff)
  then have "- ((1 / 2) * W) \<le> (of_int c - x) * W" unfolding M halfW by simp
  then have "(- (1 / 2)) * W \<le> (of_int c - x) * W" by simp
  then have lower: "- (1 / 2) \<le> of_int c - x" using W by (simp only: mult_le_cancel_right_pos)
  from upper lower have "\<bar>of_int c - x\<bar> \<le> 1 / 2" by linarith
  then show ?thesis unfolding c_def .
qed

lemma small_team_count: "n \<le> 2 ^ 32 \<Longrightarrow> (n::nat) < 2 ^ 53"
proof -
  assume "n \<le> 2 ^ 32"
  moreover have "(2::nat) ^ 32 < 2 ^ 53" by simp
  ultimately show ?thesis by (rule order.strict_trans1)
qed

lemma channel_sigma:
  fixes a b :: int
  assumes "2 \<le> n" "n \<le> 2 ^ 32" "i < n" "\<bar>a\<bar> \<le> 256" "\<bar>b - a\<bar> \<le> 256"
  shows "\<exists>\<sigma>. channel (of_int a) (of_int b) (teamRatio n i) = RInt \<lfloor>\<sigma> + 1 / 2\<rfloor>
           \<and> \<bar>\<sigma> - (of_int a + of_int (b - a) * (of_nat i / of_nat (n - 1)))\<bar> \<le> pow2 (- 42)"
proof -
  define q :: rat where "q = of_nat i / of_nat (n - 1)"
  have n53: "n < 2 ^ 53" using assms(2) by (rule small_team_count)
  from ratio_error [OF assms(1) n53 assms(3)] obtain \<rho> where
    r: "teamRatio n i = Fin \<rho>" "\<bar>\<rho> - q\<bar> \<le> 2 * pow2 (- 53)"
    unfolding teamRatio_def q_def by blast
  have "0 < n - 1" using assms(1) by linarith
  then have npos: "(0::rat) < of_nat (n - 1)" by (simp only: of_nat_0_less_iff)
  have q0: "0 \<le> q" by (simp add: q_def)
  have "i \<le> n - 1" using assms(3) by linarith
  then have "(of_nat i :: rat) \<le> of_nat (n - 1)" by (simp only: of_nat_le_iff)
  then have q1: "q \<le> 1" using npos by (simp add: q_def)
  from channel_error [OF r(2) q0 q1 assms(4) assms(5)] obtain \<sigma> where
    s: "js_add (Fin (of_int a)) (js_mul (js_sub (Fin (of_int b)) (Fin (of_int a))) (Fin \<rho>)) = Fin \<sigma>"
       "\<bar>\<sigma> - (of_int a + of_int (b - a) * q)\<bar> \<le> pow2 (- 42)" by blast
  have "channel (of_int a) (of_int b) (teamRatio n i) = RInt \<lfloor>\<sigma> + 1 / 2\<rfloor>"
    by (simp add: channel_def r(1) s(1))
  with s(2) show ?thesis unfolding q_def by blast
qed

lemma channel_nearest:
  fixes a b :: int
  assumes "2 \<le> n" "n \<le> 2 ^ 32" "i < n" "\<bar>a\<bar> \<le> 256" "\<bar>b - a\<bar> \<le> 256"
  shows "\<exists>c. channel (of_int a) (of_int b) (teamRatio n i) = RInt c
           \<and> \<bar>rat_of_int c - (of_int a + of_int (b - a) * (of_nat i / of_nat (n - 1)))\<bar> \<le> 1 / 2"
proof -
  define x :: rat where "x = of_int a + of_int (b - a) * (of_nat i / of_nat (n - 1))"
  from channel_sigma [OF assms] obtain \<sigma> where
    s: "channel (of_int a) (of_int b) (teamRatio n i) = RInt \<lfloor>\<sigma> + 1 / 2\<rfloor>"
       "\<bar>\<sigma> - x\<bar> \<le> pow2 (- 42)" unfolding x_def by blast
  have N0: "0 < n - 1" using assms(1) by linarith
  have N1: "n - 1 \<le> 2 ^ 32" using assms(2) by linarith
  have nz: "(of_nat (n - 1) :: rat) \<noteq> 0" using N0 by simp
  have grid: "x * of_nat (2 * (n - 1)) = of_int (2 * int (n - 1) * a + 2 * (b - a) * int i)"
    using nz by (simp add: x_def field_simps)
  have "\<bar>of_int \<lfloor>\<sigma> + 1 / 2\<rfloor> - x\<bar> \<le> 1 / 2"
    using s(2) N0 N1 grid by (rule round_nearest)
  with s(1) show ?thesis unfolding x_def by blast
qed

lemma interp_gap:
  fixes d :: int
  assumes "2 \<le> n" "n \<le> 2 ^ 32" "i < j" "j < n" "1 \<le> d"
  shows "2 * pow2 (- 42) \<le> of_int d * (of_nat j / of_nat (n - 1)) - of_int d * (of_nat i / of_nat (n - 1))"
proof -
  define N :: rat where "N = of_nat (n - 1)"
  have "0 < n - 1" using assms(1) by linarith
  then have Npos: "0 < N" unfolding N_def by (simp only: of_nat_0_less_iff)
  have "n - 1 \<le> 2 ^ 32" using assms(2) by linarith
  then have "(of_nat (n - 1) :: rat) \<le> of_nat (2 ^ 32)" by (simp only: of_nat_le_iff)
  then have N32: "N \<le> 2 ^ 32" by (simp add: N_def)
  have "Suc i \<le> j" using assms(3) by linarith
  then have "(of_nat (Suc i) :: rat) \<le> of_nat j" by (simp only: of_nat_le_iff)
  then have ji: "(1::rat) \<le> of_nat j - of_nat i" by simp
  have "(1::rat) \<le> of_int d" using assms(5) by simp
  then have "1 * 1 \<le> of_int d * (of_nat j - of_nat i :: rat)"
    using ji by (intro mult_mono) simp_all
  then have num: "1 \<le> of_int d * (of_nat j - of_nat i :: rat)" by simp
  have "2 * pow2 (- 42) \<le> 1 / (2 ^ 32 :: rat)" by (simp add: pow2_def)
  also have "\<dots> \<le> 1 / N" using Npos N32 by (intro divide_left_mono) simp_all
  also have "\<dots> \<le> (of_int d * (of_nat j - of_nat i)) / N"
    using num Npos by (intro divide_right_mono) simp_all
  also have "\<dots> = of_int d * (of_nat j / N) - of_int d * (of_nat i / N)"
    by (simp add: algebra_simps diff_divide_distrib)
  finally show ?thesis unfolding N_def .
qed

lemma channel_mono_up:
  fixes a b :: int
  assumes n: "2 \<le> n" "n \<le> 2 ^ 32" and ij: "i \<le> j" "j < n"
    and ab: "\<bar>a\<bar> \<le> 256" "\<bar>b - a\<bar> \<le> 256" "a < b"
    and ci: "channel (of_int a) (of_int b) (teamRatio n i) = RInt ci"
    and cj: "channel (of_int a) (of_int b) (teamRatio n j) = RInt cj"
  shows "ci \<le> cj"
proof (cases "i = j")
  case True
  with ci cj show ?thesis by simp
next
  case False
  then have lt: "i < j" using ij(1) by linarith
  then have i: "i < n" using ij(2) by linarith
  from channel_sigma [OF n i ab(1) ab(2)] ci obtain si where
    si: "ci = \<lfloor>si + 1 / 2\<rfloor>"
        "\<bar>si - (of_int a + of_int (b - a) * (of_nat i / of_nat (n - 1)))\<bar> \<le> pow2 (- 42)"
    by auto
  from channel_sigma [OF n ij(2) ab(1) ab(2)] cj obtain sj where
    sj: "cj = \<lfloor>sj + 1 / 2\<rfloor>"
        "\<bar>sj - (of_int a + of_int (b - a) * (of_nat j / of_nat (n - 1)))\<bar> \<le> pow2 (- 42)"
    by auto
  define xi :: rat where "xi = of_int (b - a) * (of_nat i / of_nat (n - 1))"
  define xj :: rat where "xj = of_int (b - a) * (of_nat j / of_nat (n - 1))"
  define aa :: rat where "aa = of_int a"
  define \<epsilon> where "\<epsilon> = pow2 (- 42)"
  have "1 \<le> b - a" using ab(3) by linarith
  from interp_gap [OF n lt ij(2) this] have gap: "2 * \<epsilon> \<le> xj - xi"
    unfolding xi_def xj_def \<epsilon>_def .
  have ei: "\<bar>si - (aa + xi)\<bar> \<le> \<epsilon>" using si(2) unfolding xi_def aa_def \<epsilon>_def .
  have ej: "\<bar>sj - (aa + xj)\<bar> \<le> \<epsilon>" using sj(2) unfolding xj_def aa_def \<epsilon>_def .
  from gap ei ej have "si \<le> sj" by linarith
  then have "si + 1 / 2 \<le> sj + 1 / 2" by simp
  then show ?thesis unfolding si(1) sj(1) by (rule floor_mono)
qed

lemma channel_mono_down:
  fixes a b :: int
  assumes n: "2 \<le> n" "n \<le> 2 ^ 32" and ij: "i \<le> j" "j < n"
    and ab: "\<bar>a\<bar> \<le> 256" "\<bar>b - a\<bar> \<le> 256" "b < a"
    and ci: "channel (of_int a) (of_int b) (teamRatio n i) = RInt ci"
    and cj: "channel (of_int a) (of_int b) (teamRatio n j) = RInt cj"
  shows "cj \<le> ci"
proof (cases "i = j")
  case True
  with ci cj show ?thesis by simp
next
  case False
  then have lt: "i < j" using ij(1) by linarith
  then have i: "i < n" using ij(2) by linarith
  from channel_sigma [OF n i ab(1) ab(2)] ci obtain si where
    si: "ci = \<lfloor>si + 1 / 2\<rfloor>"
        "\<bar>si - (of_int a + of_int (b - a) * (of_nat i / of_nat (n - 1)))\<bar> \<le> pow2 (- 42)"
    by auto
  from channel_sigma [OF n ij(2) ab(1) ab(2)] cj obtain sj where
    sj: "cj = \<lfloor>sj + 1 / 2\<rfloor>"
        "\<bar>sj - (of_int a + of_int (b - a) * (of_nat j / of_nat (n - 1)))\<bar> \<le> pow2 (- 42)"
    by auto
  define xi :: rat where "xi = of_int (b - a) * (of_nat i / of_nat (n - 1))"
  define xj :: rat where "xj = of_int (b - a) * (of_nat j / of_nat (n - 1))"
  define aa :: rat where "aa = of_int a"
  define \<epsilon> where "\<epsilon> = pow2 (- 42)"
  have "1 \<le> a - b" using ab(3) by linarith
  from interp_gap [OF n lt ij(2) this]
  have g: "2 * \<epsilon> \<le> of_int (a - b) * (of_nat j / of_nat (n - 1))
          - of_int (a - b) * (of_nat i / rat_of_nat (n - 1))"
    unfolding \<epsilon>_def .
  have neg: "rat_of_int (a - b) = - of_int (b - a)" by simp
  have gap: "2 * \<epsilon> \<le> xi - xj"
    using g unfolding neg xi_def xj_def by (simp only: mult_minus_left) simp
  have ei: "\<bar>si - (aa + xi)\<bar> \<le> \<epsilon>" using si(2) unfolding xi_def aa_def \<epsilon>_def .
  have ej: "\<bar>sj - (aa + xj)\<bar> \<le> \<epsilon>" using sj(2) unfolding xj_def aa_def \<epsilon>_def .
  from gap ei ej have "sj \<le> si" by linarith
  then have "sj + 1 / 2 \<le> si + 1 / 2" by simp
  then show ?thesis unfolding si(1) sj(1) by (rule floor_mono)
qed

section \<open>Properties of the palette\<close>

lemma teamColor_channels:
  "teamColor n i = ''rgb('' @ to_string (channel 52 231 (teamRatio n i)) @ '','' @
     to_string (channel 152 76 (teamRatio n i)) @ '','' @
     to_string (channel 219 60 (teamRatio n i)) @ '')''"
  by (simp add: teamColor_def channel_def teamRatio_def Let_def)

lemma getTeamColors_loop_map:
  "getTeamColors_loop n i colors = colors @ map (teamColor n) [i..<n]"
proof (induction n i colors rule: getTeamColors_loop.induct)
  case (1 numTeams i colors)
  show ?case
  proof (cases "i < numTeams")
    case True
    then have "[i..<numTeams] = i # [i + 1..<numTeams]" by (simp add: upt_conv_Cons)
    with 1 True show ?thesis by (simp add: getTeamColors_loop.simps [of numTeams i])
  next
    case False
    then show ?thesis by (simp add: getTeamColors_loop.simps [of numTeams i])
  qed
qed

lemma getTeamColors_map: "getTeamColors n = map (teamColor n) [0..<n]"
  by (simp add: getTeamColors_def getTeamColors_loop_map)

lemma js_mul_NaN: "js_mul x NaN = NaN"
  by (cases x) simp_all

lemma js_add_NaN: "js_add x NaN = NaN"
  by (cases x) simp_all

lemma teamRatio_one: "teamRatio 1 0 = NaN"
  by (simp add: teamRatio_def js_sub_def fl_def)

lemma channel_NaN: "channel a b NaN = RNaN"
  by (simp add: channel_def js_mul_NaN js_add_NaN)

lemma teamColor_one: "teamColor 1 0 = ''rgb(NaN,NaN,NaN)''"
  by (simp add: teamColor_channels teamRatio_one channel_NaN del: One_nat_def)

text \<open>
  C3. \<^verbatim>\<open>getTeamColors(1)\<close> returns one string, but not the start colour: the ratio of
  its single iteration is \<open>0 / 0\<close>, which is \<^verbatim>\<open>NaN\<close>, and so is every channel.
\<close>

theorem getTeamColors_one_is_NaN:
  "getTeamColors 1 = [''rgb(NaN,NaN,NaN)''] \<and> teamRatio 1 0 = NaN
     \<and> getTeamColors 1 \<noteq> [''rgb(52,152,219)'']"
proof -
  have "getTeamColors 1 = [''rgb(NaN,NaN,NaN)'']"
  proof -
    have "[0..<1] = [0::nat]" by simp
    then show ?thesis by (simp only: getTeamColors_map list.map teamColor_one)
  qed
  then show ?thesis by (simp add: teamRatio_one del: One_nat_def)
qed

text \<open>
  C10. \<^verbatim>\<open>getTeamColors(0)\<close> returns the empty array: the loop condition fails at once, so
  no iteration runs and no ratio is computed.
\<close>

theorem getTeamColors_zero:
  "getTeamColors 0 = [] \<and> getTeamColors_loop 0 0 [] = []"
  by (simp add: getTeamColors_def getTeamColors_loop.simps)

lemma int_near:
  assumes "\<bar>rat_of_int c - of_int k\<bar> \<le> 1 / 2"
  shows "c = k"
proof -
  have "\<bar>rat_of_int (c - k)\<bar> < 1" using assms by simp
  then have "\<bar>c - k\<bar> < 1" by (metis of_int_abs of_int_less_1_iff)
  then show ?thesis by linarith
qed

lemma int_close:
  assumes "\<bar>rat_of_int c - of_int k\<bar> < 1"
  shows "c = k"
proof -
  have "\<bar>rat_of_int (c - k)\<bar> < 1" using assms by simp
  then have "\<bar>c - k\<bar> < 1" by (metis of_int_abs of_int_less_1_iff)
  then show ?thesis by linarith
qed

lemma teamColor_rgb:
  assumes "2 \<le> n" "n \<le> 2 ^ 32" "i < n"
  shows "\<exists>r g b. teamColor n i = rgb_string r g b
    \<and> channel 52 231 (teamRatio n i) = RInt r
    \<and> channel 152 76 (teamRatio n i) = RInt g
    \<and> channel 219 60 (teamRatio n i) = RInt b
    \<and> \<bar>rat_of_int r - (52 + (231 - 52) * (of_nat i / of_nat (n - 1)))\<bar> \<le> 1 / 2
    \<and> \<bar>rat_of_int g - (152 + (76 - 152) * (of_nat i / of_nat (n - 1)))\<bar> \<le> 1 / 2
    \<and> \<bar>rat_of_int b - (219 + (60 - 219) * (of_nat i / of_nat (n - 1)))\<bar> \<le> 1 / 2"
proof -
  from channel_nearest [OF assms, of 52 231] obtain r where
    r: "channel 52 231 (teamRatio n i) = RInt r"
       "\<bar>rat_of_int r - (52 + (231 - 52) * (of_nat i / of_nat (n - 1)))\<bar> \<le> 1 / 2"
    by auto
  from channel_nearest [OF assms, of 152 76] obtain g where
    g: "channel 152 76 (teamRatio n i) = RInt g"
       "\<bar>rat_of_int g - (152 + (76 - 152) * (of_nat i / of_nat (n - 1)))\<bar> \<le> 1 / 2"
    by auto
  from channel_nearest [OF assms, of 219 60] obtain b where
    b: "channel 219 60 (teamRatio n i) = RInt b"
       "\<bar>rat_of_int b - (219 + (60 - 219) * (of_nat i / of_nat (n - 1)))\<bar> \<le> 1 / 2"
    by auto
  have "teamColor n i = rgb_string r g b"
    by (simp only: teamColor_channels rgb_string_def r(1) g(1) b(1))
  with r g b show ?thesis by blast
qed





subsection \<open>Colour strings determine their channels\<close>

lemma digit_chars_distinct: "distinct ''0123456789''"
  by simp

lemma digit_char_mem: "k < 10 \<Longrightarrow> ''0123456789'' ! k \<in> set ''0123456789''"
  by (rule nth_mem) simp

lemma digit_char_inj:
  assumes "j < 10" "k < 10" "''0123456789'' ! j = ''0123456789'' ! k"
  shows "j = k"
proof -
  have "j < length ''0123456789''" "k < length ''0123456789''" using assms(1,2) by simp_all
  with assms(3) digit_chars_distinct show ?thesis by (simp only: nth_eq_iff_index_eq)
qed

lemma digits_set: "set (digits n) \<subseteq> set ''0123456789''"
proof (induction n rule: digits.induct)
  case (1 n)
  define S where "S = set ''0123456789''"
  show ?case
  proof (cases "n < 10")
    case True
    then have "digits n = [''0123456789'' ! n]" by (subst digits.simps) simp
    then have "set (digits n) = {''0123456789'' ! n}" by (simp only: list.set)
    moreover have "''0123456789'' ! n \<in> S" unfolding S_def by (rule digit_char_mem [OF True])
    ultimately have "set (digits n) \<subseteq> S" by simp
    then show ?thesis unfolding S_def .
  next
    case False
    have m: "n mod 10 < 10" by simp
    have "digits n = digits (n div 10) @ [''0123456789'' ! (n mod 10)]"
      using False by (subst digits.simps) simp
    then have "set (digits n) = set (digits (n div 10)) \<union> {''0123456789'' ! (n mod 10)}"
      by (simp only: set_append list.set)
    moreover have "''0123456789'' ! (n mod 10) \<in> S" unfolding S_def by (rule digit_char_mem [OF m])
    moreover have "set (digits (n div 10)) \<subseteq> S" unfolding S_def by (rule "1.IH" [OF False])
    ultimately have "set (digits n) \<subseteq> S" by simp
    then show ?thesis unfolding S_def .
  qed
qed

lemma digits_no_comma: "CHR '','' \<notin> set (digits n)"
  using digits_set [of n] by auto

lemma digits_nonempty: "digits n \<noteq> []"
  by (subst digits.simps) simp

lemma digits_small: "n < 10 \<Longrightarrow> digits n = [''0123456789'' ! n]"
  by (subst digits.simps) simp

lemma digits_large: "\<not> n < 10 \<Longrightarrow> digits n = digits (n div 10) @ [''0123456789'' ! (n mod 10)]"
  by (subst digits.simps) simp

lemma digits_length_small: "n < 10 \<Longrightarrow> length (digits n) = 1"
  by (simp only: digits_small) simp

lemma digits_length_large: "\<not> n < 10 \<Longrightarrow> 2 \<le> length (digits n)"
proof -
  assume a: "\<not> n < 10"
  have "length (digits (n div 10)) \<noteq> 0" using digits_nonempty [of "n div 10"] by simp
  then have "1 \<le> length (digits (n div 10))" by linarith
  moreover have "length (digits n) = length (digits (n div 10)) + 1"
    by (simp only: digits_large [OF a]) simp
  ultimately show ?thesis by linarith
qed

lemma digits_inj: "digits m = digits n \<Longrightarrow> m = n"
proof (induction m arbitrary: n rule: digits.induct)
  case (1 m)
  have len: "length (digits m) = length (digits n)" using "1.prems" by (rule arg_cong)
  show ?case
  proof (cases "m < 10")
    case True
    show ?thesis
    proof (cases "n < 10")
      case n: True
      have "[''0123456789'' ! m] = [''0123456789'' ! n]"
        using "1.prems" unfolding digits_small [OF True] digits_small [OF n] .
      then have "''0123456789'' ! m = ''0123456789'' ! n" by (simp only: list.inject)
      with True n show ?thesis by (intro digit_char_inj)
    next
      case False
      from digits_length_small [OF True] digits_length_large [OF False] len
      show ?thesis by linarith
    qed
  next
    case False
    show ?thesis
    proof (cases "n < 10")
      case True
      from digits_length_small [OF True] digits_length_large [OF False] len
      show ?thesis by linarith
    next
      case n: False
      have "digits (m div 10) @ [''0123456789'' ! (m mod 10)]
          = digits (n div 10) @ [''0123456789'' ! (n mod 10)]"
        using "1.prems" unfolding digits_large [OF False] digits_large [OF n] .
      then have eq: "digits (m div 10) = digits (n div 10)"
        and last: "''0123456789'' ! (m mod 10) = ''0123456789'' ! (n mod 10)"
        by (simp_all only: append1_eq_conv)
      from "1.IH" [OF False eq] have d: "m div 10 = n div 10" .
      have "m mod 10 = n mod 10" using last by (intro digit_char_inj) simp_all
      with d show ?thesis by (metis div_mult_mod_eq)
    qed
  qed
qed

lemma split_at_comma:
  assumes "CHR '','' \<notin> set xs" "CHR '','' \<notin> set xs'"
    and "xs @ CHR '','' # ys = xs' @ CHR '','' # ys'"
  shows "xs = xs' \<and> ys = ys'"
proof -
  have a: "\<And>c. c \<in> set xs \<Longrightarrow> c \<noteq> CHR '',''" using assms(1) by blast
  have b: "\<And>c. c \<in> set xs' \<Longrightarrow> c \<noteq> CHR '',''" using assms(2) by blast
  have "takeWhile (\<lambda>c. c \<noteq> CHR '','') (xs @ CHR '','' # ys) = xs"
    using a by (simp add: takeWhile_append2)
  moreover have "takeWhile (\<lambda>c. c \<noteq> CHR '','') (xs' @ CHR '','' # ys') = xs'"
    using b by (simp add: takeWhile_append2)
  ultimately have "xs = xs'" using assms(3) by simp
  with assms(3) show ?thesis by simp
qed

lemma rgb_string_red_inj:
  assumes "0 \<le> r" "0 \<le> r'" "rgb_string r g b = rgb_string r' g' b'"
  shows "r = r'"
proof -
  from assms have "digits (nat r) @ CHR '','' # (to_string (RInt g) @ '','' @ to_string (RInt b) @ '')'')
      = digits (nat r') @ CHR '','' # (to_string (RInt g') @ '','' @ to_string (RInt b') @ '')'')"
    by (simp add: rgb_string_def)
  from split_at_comma [OF digits_no_comma digits_no_comma this]
  have "digits (nat r) = digits (nat r')" by simp
  then have "nat r = nat r'" by (rule digits_inj)
  with assms(1,2) show ?thesis by simp
qed

subsection \<open>Distinct colours for small team counts\<close>

lemma rgb_string_inj:
  assumes "0 \<le> r" "0 \<le> g" "0 \<le> b" "0 \<le> r'" "0 \<le> g'" "0 \<le> b'"
    and "rgb_string r g b = rgb_string r' g' b'"
  shows "r = r' \<and> g = g' \<and> b = b'"
proof -
  from assms have "digits (nat r) @ CHR '','' # (digits (nat g) @ CHR '','' # (digits (nat b) @ '')''))
      = digits (nat r') @ CHR '','' # (digits (nat g') @ CHR '','' # (digits (nat b') @ '')''))"
    by (simp add: rgb_string_def)
  from split_at_comma [OF digits_no_comma digits_no_comma this]
  have r: "digits (nat r) = digits (nat r')"
    and rest: "digits (nat g) @ CHR '','' # (digits (nat b) @ '')'')
      = digits (nat g') @ CHR '','' # (digits (nat b') @ '')'')" by simp_all
  from split_at_comma [OF digits_no_comma digits_no_comma rest]
  have g: "digits (nat g) = digits (nat g')" and b: "digits (nat b) = digits (nat b')"
    by simp_all
  from digits_inj [OF r] digits_inj [OF g] digits_inj [OF b] assms(1-6)
  show ?thesis by linarith
qed

lemma red_strict:
  fixes ri rj :: int
  assumes n: "2 \<le> n" "n \<le> 180" and ij: "i < j" "j < n"
    and ri: "\<bar>rat_of_int ri - (52 + (231 - 52) * (of_nat i / of_nat (n - 1)))\<bar> \<le> 1 / 2"
    and rj: "\<bar>rat_of_int rj - (52 + (231 - 52) * (of_nat j / of_nat (n - 1)))\<bar> \<le> 1 / 2"
  shows "ri < rj"
proof (cases "n = 180")
  case True
  then have N: "(of_nat (n - 1) :: rat) = 179" by simp
  have "\<bar>rat_of_int ri - of_int (52 + int i)\<bar> \<le> 1 / 2" using ri unfolding N by simp
  then have "ri = 52 + int i" by (rule int_near)
  moreover have "\<bar>rat_of_int rj - of_int (52 + int j)\<bar> \<le> 1 / 2" using rj unfolding N by simp
  then have "rj = 52 + int j" by (rule int_near)
  ultimately show ?thesis using ij(1) by simp
next
  case False
  define N :: rat where "N = of_nat (n - 1)"
  have "0 < n - 1" using n(1) by linarith
  then have Npos: "0 < N" unfolding N_def by (simp only: of_nat_0_less_iff)
  have "n - 1 \<le> 178" using n(2) False by linarith
  then have "(of_nat (n - 1) :: rat) \<le> of_nat 178" by (simp only: of_nat_le_iff)
  then have N178: "N \<le> 178" by (simp add: N_def)
  have "Suc i \<le> j" using ij(1) by linarith
  then have "(of_nat (Suc i) :: rat) \<le> of_nat j" by (simp only: of_nat_le_iff)
  then have ji: "(1::rat) \<le> of_nat j - of_nat i" by simp
  have "(179::rat) / 178 \<le> 179 / N"
    using Npos N178 by (intro divide_left_mono) simp_all
  also have "\<dots> \<le> (179 * (of_nat j - of_nat i)) / N"
    using ji Npos by (intro divide_right_mono) simp_all
  also have "\<dots> = 179 * (of_nat j / N) - 179 * (of_nat i / N)"
    by (simp add: algebra_simps diff_divide_distrib)
  finally have gap: "(179::rat) / 178 \<le> 179 * (of_nat j / N) - 179 * (of_nat i / N)" .
  have ei: "\<bar>rat_of_int ri - (52 + 179 * (of_nat i / N))\<bar> \<le> 1 / 2"
    using ri unfolding N_def by simp
  have ej: "\<bar>rat_of_int rj - (52 + 179 * (of_nat j / N))\<bar> \<le> 1 / 2"
    using rj unfolding N_def by simp
  from gap ei ej have "rat_of_int ri < of_int rj" by linarith
  then show ?thesis by (simp only: of_int_less_iff)
qed

lemma red_lower:
  fixes r :: int
  assumes "2 \<le> n"
    and "\<bar>rat_of_int r - (52 + (231 - 52) * (of_nat i / of_nat (n - 1)))\<bar> \<le> 1 / 2"
  shows "0 \<le> r"
proof -
  define t :: rat where "t = (231 - 52) * (of_nat i / of_nat (n - 1))"
  have "0 \<le> t" unfolding t_def by simp
  moreover have "\<bar>rat_of_int r - (52 + t)\<bar> \<le> 1 / 2" using assms(2) unfolding t_def .
  ultimately have "(0::rat) \<le> of_int r" by linarith
  then show ?thesis by simp
qed

lemma teamColor_inj_small:
  assumes n: "2 \<le> n" "n \<le> 180" and ij: "i < j" "j < n"
  shows "teamColor n i \<noteq> teamColor n j"
proof
  assume eq: "teamColor n i = teamColor n j"
  have n32: "n \<le> 2 ^ 32" using n(2) by simp
  have i: "i < n" using ij by linarith
  from teamColor_rgb [OF n(1) n32 i] obtain r g b where
    ci: "teamColor n i = rgb_string r g b"
    and r: "\<bar>rat_of_int r - (52 + (231 - 52) * (of_nat i / of_nat (n - 1)))\<bar> \<le> 1 / 2"
    by blast
  from teamColor_rgb [OF n(1) n32 ij(2)] obtain r' g' b' where
    cj: "teamColor n j = rgb_string r' g' b'"
    and r': "\<bar>rat_of_int r' - (52 + (231 - 52) * (of_nat j / of_nat (n - 1)))\<bar> \<le> 1 / 2"
    by blast
  have "r < r'" using n ij r r' by (rule red_strict)
  moreover have "r = r'"
    using red_lower [OF n(1) r] red_lower [OF n(1) r'] eq unfolding ci cj
    by (rule rgb_string_red_inj)
  ultimately show False by simp
qed

lemma getTeamColors_distinct_small:
  assumes "2 \<le> n" "n \<le> 180"
  shows "distinct (getTeamColors n)"
proof -
  have "inj_on (teamColor n) (set [0..<n])"
  proof (rule inj_onI)
    fix i j assume i: "i \<in> set [0..<n]" and j: "j \<in> set [0..<n]"
      and eq: "teamColor n i = teamColor n j"
    show "i = j"
    proof (rule ccontr)
      assume "i \<noteq> j"
      then consider "i < j" | "j < i" by linarith
      then show False
      proof cases
        case 1
        with teamColor_inj_small [OF assms 1] j eq show False by simp
      next
        case 2
        with teamColor_inj_small [OF assms 2] i eq show False by simp
      qed
    qed
  qed
  then show ?thesis by (simp add: getTeamColors_map distinct_map)
qed

subsection \<open>Equal colours for 182 teams\<close>

lemma channel_exact_value:
  fixes a b :: int
  assumes "2 \<le> n" "n \<le> 2 ^ 32" "i < n" "\<bar>a\<bar> \<le> 256" "\<bar>b - a\<bar> \<le> 256"
    and x: "of_int a + of_int (b - a) * (of_nat i / of_nat (n - 1)) = x"
    and lo: "rat_of_int c - 1 / 2 < x" and hi: "x < of_int c + 1 / 2"
  shows "channel (of_int a) (of_int b) (teamRatio n i) = RInt c"
proof -
  from channel_nearest [OF assms(1-5)] obtain c' where
    c: "channel (of_int a) (of_int b) (teamRatio n i) = RInt c'" "\<bar>rat_of_int c' - x\<bar> \<le> 1 / 2"
    unfolding x by blast
  have "\<bar>rat_of_int c' - of_int c\<bar> < 1" using c(2) lo hi by linarith
  then have "\<bar>rat_of_int (c' - c)\<bar> < 1" by simp
  then have "\<bar>c' - c\<bar> < 1" by (metis of_int_abs of_int_less_1_iff)
  then have "c' = c" by linarith
  with c(1) show ?thesis by simp
qed

lemma teamColor_182_45: "teamColor 182 45 = ''rgb(97,133,179)''"
proof -
  have "channel (of_int 52) (of_int 231) (teamRatio 182 45) = RInt 97"
    by (rule channel_exact_value [where x = "17467 / 181"]) simp_all
  then have r: "channel 52 231 (teamRatio 182 45) = RInt 97" by simp
  have "channel (of_int 152) (of_int 76) (teamRatio 182 45) = RInt 133"
    by (rule channel_exact_value [where x = "24092 / 181"]) simp_all
  then have g: "channel 152 76 (teamRatio 182 45) = RInt 133" by simp
  have "channel (of_int 219) (of_int 60) (teamRatio 182 45) = RInt 179"
    by (rule channel_exact_value [where x = "32484 / 181"]) simp_all
  then have b: "channel 219 60 (teamRatio 182 45) = RInt 179" by simp
  show ?thesis by (simp add: teamColor_channels r g b digits.simps)
qed

lemma teamColor_182_46: "teamColor 182 46 = ''rgb(97,133,179)''"
proof -
  have "channel (of_int 52) (of_int 231) (teamRatio 182 46) = RInt 97"
    by (rule channel_exact_value [where x = "17646 / 181"]) simp_all
  then have r: "channel 52 231 (teamRatio 182 46) = RInt 97" by simp
  have "channel (of_int 152) (of_int 76) (teamRatio 182 46) = RInt 133"
    by (rule channel_exact_value [where x = "24016 / 181"]) simp_all
  then have g: "channel 152 76 (teamRatio 182 46) = RInt 133" by simp
  have "channel (of_int 219) (of_int 60) (teamRatio 182 46) = RInt 179"
    by (rule channel_exact_value [where x = "32325 / 181"]) simp_all
  then have b: "channel 219 60 (teamRatio 182 46) = RInt 179" by simp
  show ?thesis by (simp add: teamColor_channels r g b digits.simps)
qed

text \<open>
  C5, refuted as stated: the colours are not pairwise distinct for every \<open>n\<close>. With 182
  teams the colours at the indices 45 and 46 are the same string.
\<close>

theorem getTeamColors_182_not_distinct:
  "getTeamColors 182 ! 45 = ''rgb(97,133,179)'' \<and> getTeamColors 182 ! 46 = ''rgb(97,133,179)''
     \<and> \<not> distinct (getTeamColors 182)"
proof -
  have a: "getTeamColors 182 ! 45 = ''rgb(97,133,179)''"
    by (simp add: getTeamColors_map teamColor_182_45)
  have b: "getTeamColors 182 ! 46 = ''rgb(97,133,179)''"
    by (simp add: getTeamColors_map teamColor_182_46)
  have len: "length (getTeamColors 182) = 182" by (simp add: getTeamColors_map)
  have "\<not> distinct (getTeamColors 182)"
  proof
    assume "distinct (getTeamColors 182)"
    then have "(getTeamColors 182 ! 45 = getTeamColors 182 ! 46) = ((45::nat) = 46)"
      by (rule nth_eq_iff_index_eq) (simp_all add: len)
    with a b show False by simp
  qed
  with a b show ?thesis by simp
qed

subsection \<open>Channels are non-negative integers\<close>

lemma nearest_nonneg:
  fixes c :: int and a d q :: rat
  assumes "\<bar>rat_of_int c - (a + d * q)\<bar> \<le> 1 / 2" "0 \<le> q" "q \<le> 1" "0 \<le> a" "0 \<le> a + d"
  shows "0 \<le> c"
proof -
  have "0 \<le> a + d * q"
  proof (cases "0 \<le> d")
    case True
    then have "0 \<le> d * q" using assms(2) by simp
    with assms(4) show ?thesis by linarith
  next
    case False
    then have d: "d \<le> 0" by linarith
    have "d * 1 \<le> d * q" using assms(3) d by (rule mult_left_mono_neg)
    with assms(5) show ?thesis by simp
  qed
  with assms(1) have "- 1 < rat_of_int c" by linarith
  then have "rat_of_int (- 1) < of_int c" by simp
  then have "- 1 < c" by (simp only: of_int_less_iff)
  then show ?thesis by linarith
qed

lemma ratio_unit:
  assumes "2 \<le> n" "i < n"
  shows "(0::rat) \<le> of_nat i / of_nat (n - 1)" "of_nat i / of_nat (n - 1) \<le> (1::rat)"
proof -
  show "(0::rat) \<le> of_nat i / of_nat (n - 1)" by simp
  have "0 < n - 1" using assms(1) by linarith
  then have npos: "(0::rat) < of_nat (n - 1)" by (simp only: of_nat_0_less_iff)
  have "i \<le> n - 1" using assms(2) by linarith
  then have "(of_nat i :: rat) \<le> of_nat (n - 1)" by (simp only: of_nat_le_iff)
  then show "of_nat i / of_nat (n - 1) \<le> (1::rat)" using npos by simp
qed

lemma teamColor_channel_ints:
  assumes "2 \<le> n" "n \<le> 2 ^ 32" "i < n"
  shows "channel 52 231 (teamRatio n i) = RInt (the_int (channel 52 231 (teamRatio n i)))"
    and "channel 152 76 (teamRatio n i) = RInt (the_int (channel 152 76 (teamRatio n i)))"
    and "channel 219 60 (teamRatio n i) = RInt (the_int (channel 219 60 (teamRatio n i)))"
    and "teamColor n i = rgb_string (the_int (channel 52 231 (teamRatio n i)))
            (the_int (channel 152 76 (teamRatio n i))) (the_int (channel 219 60 (teamRatio n i)))"
    and "0 \<le> the_int (channel 52 231 (teamRatio n i))"
    and "0 \<le> the_int (channel 152 76 (teamRatio n i))"
    and "0 \<le> the_int (channel 219 60 (teamRatio n i))"
proof -
  from teamColor_rgb [OF assms] obtain r g b where
    c: "teamColor n i = rgb_string r g b"
    and r: "channel 52 231 (teamRatio n i) = RInt r"
    and g: "channel 152 76 (teamRatio n i) = RInt g"
    and b: "channel 219 60 (teamRatio n i) = RInt b"
    and er: "\<bar>rat_of_int r - (52 + (231 - 52) * (of_nat i / of_nat (n - 1)))\<bar> \<le> 1 / 2"
    and eg: "\<bar>rat_of_int g - (152 + (76 - 152) * (of_nat i / of_nat (n - 1)))\<bar> \<le> 1 / 2"
    and eb: "\<bar>rat_of_int b - (219 + (60 - 219) * (of_nat i / of_nat (n - 1)))\<bar> \<le> 1 / 2"
    by blast
  note q = ratio_unit [OF assms(1) assms(3)]
  show "channel 52 231 (teamRatio n i) = RInt (the_int (channel 52 231 (teamRatio n i)))"
    by (simp add: r the_int_def)
  show "channel 152 76 (teamRatio n i) = RInt (the_int (channel 152 76 (teamRatio n i)))"
    by (simp add: g the_int_def)
  show "channel 219 60 (teamRatio n i) = RInt (the_int (channel 219 60 (teamRatio n i)))"
    by (simp add: b the_int_def)
  show "teamColor n i = rgb_string (the_int (channel 52 231 (teamRatio n i)))
            (the_int (channel 152 76 (teamRatio n i))) (the_int (channel 219 60 (teamRatio n i)))"
    by (simp add: c r g b the_int_def)
  have "0 \<le> r" using er q by (rule nearest_nonneg) simp_all
  then show "0 \<le> the_int (channel 52 231 (teamRatio n i))" by (simp add: r the_int_def)
  have "0 \<le> g" using eg q by (rule nearest_nonneg) simp_all
  then show "0 \<le> the_int (channel 152 76 (teamRatio n i))" by (simp add: g the_int_def)
  have "0 \<le> b" using eb q by (rule nearest_nonneg) simp_all
  then show "0 \<le> the_int (channel 219 60 (teamRatio n i))" by (simp add: b the_int_def)
qed

section \<open>Properties of the highlight controller\<close>

lemma save_loop_map:
  "save_loop data n i (os, ws) =
     (os @ map (\<lambda>j. js_or (trace_opacity (data ! j)) (Fin 1)) [i..<n],
      ws @ map (\<lambda>j. case trace_line (data ! j) of
                        Some l \<Rightarrow> js_or (line_width l) (Fin 2) | None \<Rightarrow> Fin 2) [i..<n])"
proof (induction data n i "(os, ws)" arbitrary: os ws rule: save_loop.induct)
  case (1 data numTraces i opacities widths)
  show ?case
  proof (cases "i < numTraces")
    case True
    then have "[i..<numTraces] = i # [i + 1..<numTraces]" by (simp add: upt_conv_Cons)
    with 1 [OF True] True show ?thesis
      by (subst save_loop.simps) simp
  next
    case False
    then show ?thesis by (subst save_loop.simps) simp
  qed
qed

lemma hover_loop_map:
  "hover_loop k n i (os, ws) =
     (os @ map (\<lambda>j. if j = k then Fin 1 else fl (15 / 100)) [i..<n],
      ws @ map (\<lambda>j. if j = k then Fin 4 else Fin (3 / 2)) [i..<n])"
proof (induction k n i "(os, ws)" arbitrary: os ws rule: hover_loop.induct)
  case (1 curveNumber numTraces i opacityUpdate widthUpdate)
  show ?case
  proof (cases "i < numTraces")
    case True
    then have u: "[i..<numTraces] = i # [i + 1..<numTraces]" by (simp add: upt_conv_Cons)
    show ?thesis
    proof (cases "i = curveNumber")
      case c: True
      from 1 [OF True, of "opacityUpdate @ [Fin 1]" "widthUpdate @ [Fin 4]"] True c u
      show ?thesis by (subst hover_loop.simps) simp
    next
      case c: False
      from 1 [OF True, of "opacityUpdate @ [fl (15 / 100)]" "widthUpdate @ [Fin (3 / 2)]"] True c u
      show ?thesis by (subst hover_loop.simps) simp
    qed
  next
    case False
    then show ?thesis by (subst hover_loop.simps) simp
  qed
qed

lemma unhover_loop_map:
  "unhover_loop oo ow n i (os, ws) =
     (os @ map (\<lambda>j. js_or (js_nth oo j) (Fin 1)) [i..<n],
      ws @ map (\<lambda>j. js_or (js_nth ow j) (Fin 2)) [i..<n])"
proof (induction oo ow n i "(os, ws)" arbitrary: os ws rule: unhover_loop.induct)
  case (1 origOpacities origWidths numTraces i opacityUpdate widthUpdate)
  show ?case
  proof (cases "i < numTraces")
    case True
    then have "[i..<numTraces] = i # [i + 1..<numTraces]" by (simp add: upt_conv_Cons)
    with 1 [OF True] True show ?thesis
      by (subst unhover_loop.simps) simp
  next
    case False
    then show ?thesis by (subst unhover_loop.simps) simp
  qed
qed

lemma length_restyle: "length (restyle data u) = length data"
  by (simp add: restyle_def)

lemma hover_update:
  "fst (plotly_hover k st) =
     \<lparr>upd_opacity = map (\<lambda>j. if j = k then Fin 1 else fl (15 / 100)) [0..<length (plot_data st)],
      upd_line_width = map (\<lambda>j. if j = k then Fin 4 else Fin (3 / 2)) [0..<length (plot_data st)]\<rparr>"
  by (simp add: plotly_hover_def Let_def hover_loop_map)

lemma unhover_update:
  "fst (plotly_unhover st) =
     \<lparr>upd_opacity = map (\<lambda>j. js_or (js_nth (originalOpacities st) j) (Fin 1))
                       [0..<length (plot_data st)],
      upd_line_width = map (\<lambda>j. js_or (js_nth (originalLineWidths st) j) (Fin 2))
                       [0..<length (plot_data st)]\<rparr>"
  by (simp add: plotly_unhover_def Let_def unhover_loop_map)

lemma hover_state:
  "snd (plotly_hover k st) =
     \<lparr>plot_data = restyle (plot_data st) (fst (plotly_hover k st)),
      originalOpacities =
        (if originalOpacities st = []
         then map (\<lambda>j. js_or (trace_opacity (plot_data st ! j)) (Fin 1)) [0..<length (plot_data st)]
         else originalOpacities st),
      originalLineWidths =
        (if originalOpacities st = []
         then originalLineWidths st @ map (\<lambda>j. case trace_line (plot_data st ! j) of
                 Some l \<Rightarrow> js_or (line_width l) (Fin 2) | None \<Rightarrow> Fin 2) [0..<length (plot_data st)]
         else originalLineWidths st)\<rparr>"
  by (simp add: plotly_hover_def Let_def save_loop_map hover_loop_map)

lemma unhover_state:
  "snd (plotly_unhover st) = st\<lparr>plot_data := restyle (plot_data st) (fst (plotly_unhover st))\<rparr>"
  by (simp add: plotly_unhover_def Let_def)

lemma list_of_three:
  assumes "length xs = 3"
  shows "xs = [xs ! 0, xs ! 1, xs ! 2]"
proof -
  from assms obtain a b c where "xs = [a, b, c]"
    by (auto simp: numeral_3_eq_3 length_Suc_conv)
  then show ?thesis by simp
qed

text \<open>
  C1. Hovering trace \<open>k\<close> of a chart with \<open>n\<close> traces, primed or not, makes one restyle call
  whose opacity array has length \<open>n\<close>, 1.0 at \<open>k\<close> and 0.15 elsewhere, and whose line-width
  array has length \<open>n\<close>, 4 at \<open>k\<close> and 1.5 elsewhere.
\<close>

theorem hover_emphasises_hovered_trace:
  assumes "length (plot_data st) = n" "k < n"
  shows "length (upd_opacity (fst (plotly_hover k st))) = n
    \<and> length (upd_line_width (fst (plotly_hover k st))) = n
    \<and> upd_opacity (fst (plotly_hover k st)) ! k = Fin 1
    \<and> upd_line_width (fst (plotly_hover k st)) ! k = Fin 4
    \<and> (\<forall>i<n. i \<noteq> k \<longrightarrow> upd_opacity (fst (plotly_hover k st)) ! i = fl (15 / 100)
                    \<and> upd_line_width (fst (plotly_hover k st)) ! i = Fin (3 / 2))
    \<and> fst (step (Hover k) st) = Some (fst (plotly_hover k st))"
  using assms by (simp add: hover_update case_prod_unfold)

theorem hover_emphasises_hovered_trace_witness:
  "length (plot_data (highlight_init sample_chart)) = 3 \<and> (1::nat) < 3
    \<and> fst (plotly_hover 1 (highlight_init sample_chart)) =
        \<lparr>upd_opacity = [fl (15 / 100), Fin 1, fl (15 / 100)],
         upd_line_width = [Fin (3 / 2), Fin 4, Fin (3 / 2)]\<rparr>"
proof -
  have len: "length (plot_data (highlight_init sample_chart)) = 3"
    by (simp add: highlight_init_def sample_chart_def)
  have k: "(1::nat) < 3" by simp
  define u where "u = fst (plotly_hover 1 (highlight_init sample_chart))"
  from hover_emphasises_hovered_trace [OF len k]
  have l: "length (upd_opacity u) = 3" "length (upd_line_width u) = 3"
    and h: "upd_opacity u ! 1 = Fin 1" "upd_line_width u ! 1 = Fin 4"
    and d: "\<forall>i<3. i \<noteq> 1 \<longrightarrow> upd_opacity u ! i = fl (15 / 100) \<and> upd_line_width u ! i = Fin (3 / 2)"
    unfolding u_def by blast+
  from d have d0: "upd_opacity u ! 0 = fl (15 / 100)" "upd_line_width u ! 0 = Fin (3 / 2)"
    and d2: "upd_opacity u ! 2 = fl (15 / 100)" "upd_line_width u ! 2 = Fin (3 / 2)"
    by simp_all
  have "upd_opacity u = [fl (15 / 100), Fin 1, fl (15 / 100)]"
    using list_of_three [OF l(1)] h(1) d0(1) d2(1) by simp
  moreover have "upd_line_width u = [Fin (3 / 2), Fin 4, Fin (3 / 2)]"
    using list_of_three [OF l(2)] h(2) d0(2) d2(2) by simp
  ultimately have "u = \<lparr>upd_opacity = [fl (15 / 100), Fin 1, fl (15 / 100)],
         upd_line_width = [Fin (3 / 2), Fin 4, Fin (3 / 2)]\<rparr>" by simp
  with len k show ?thesis unfolding u_def by simp
qed

section \<open>The saved values, the setup and the chart factory\<close>

lemma hover_keeps_snapshot:
  assumes "originalOpacities st \<noteq> []"
  shows "originalOpacities (snd (plotly_hover k st)) = originalOpacities st"
    and "originalLineWidths (snd (plotly_hover k st)) = originalLineWidths st"
  using assms by (simp_all add: hover_state)

lemma unhover_keeps_snapshot:
  "originalOpacities (snd (plotly_unhover st)) = originalOpacities st"
  "originalLineWidths (snd (plotly_unhover st)) = originalLineWidths st"
  by (simp_all add: unhover_state)

lemma step_keeps_snapshot:
  assumes "originalOpacities st \<noteq> []"
  shows "originalOpacities (snd (step e st)) = originalOpacities st"
    and "originalLineWidths (snd (step e st)) = originalLineWidths st"
  using assms
  by (cases e; simp add: case_prod_unfold hover_keeps_snapshot unhover_keeps_snapshot)+

lemma run_keeps_snapshot:
  "originalOpacities st \<noteq> [] \<Longrightarrow>
     originalOpacities (run es st) = originalOpacities st
     \<and> originalLineWidths (run es st) = originalLineWidths st"
proof (induction es arbitrary: st)
  case Nil
  show ?case by simp
next
  case (Cons e es)
  have "originalOpacities (snd (step e st)) \<noteq> []"
    using Cons.prems by (simp add: step_keeps_snapshot(1))
  from Cons.IH [OF this] show ?case
    using Cons.prems by (simp add: step_keeps_snapshot)
qed

lemma first_hover_saves:
  assumes "originalOpacities st = []" "k < length (plot_data st)"
  shows "originalOpacities (snd (plotly_hover k st)) \<noteq> []"
proof -
  have "plot_data st \<noteq> []" using assms(2) by auto
  with assms(1) show ?thesis by (simp add: hover_state)
qed

text \<open>
  C7. The saved values are captured at most once. A hover on a chart whose saved
  arrays are empty fills them; once they are not empty no event changes them, whatever
  hovers, unhovers and replacements of the chart's series follow.
\<close>

theorem snapshot_captured_once:
  "(originalOpacities st = [] \<and> k < length (plot_data st)
      \<longrightarrow> originalOpacities (snd (step (Hover k) st)) \<noteq> [])
   \<and> (originalOpacities st \<noteq> []
      \<longrightarrow> originalOpacities (run es st) = originalOpacities st
          \<and> originalLineWidths (run es st) = originalLineWidths st)"
  using first_hover_saves [of st k] run_keeps_snapshot [of st es]
  by (simp add: case_prod_unfold)

theorem snapshot_captured_once_witness:
  "originalOpacities (highlight_init sample_chart) = []
   \<and> 1 < length (plot_data (highlight_init sample_chart))
   \<and> originalOpacities (snd (step (Hover 1) (highlight_init sample_chart))) \<noteq> []
   \<and> originalOpacities (run [Unhover, SetData [], Hover 0, Unhover]
        (snd (step (Hover 1) (highlight_init sample_chart))))
      = originalOpacities (snd (step (Hover 1) (highlight_init sample_chart)))
   \<and> originalLineWidths (run [Unhover, SetData [], Hover 0, Unhover]
        (snd (step (Hover 1) (highlight_init sample_chart))))
      = originalLineWidths (snd (step (Hover 1) (highlight_init sample_chart)))"
proof -
  have e: "originalOpacities (highlight_init sample_chart) = []"
    by (simp add: highlight_init_def)
  have k: "1 < length (plot_data (highlight_init sample_chart))"
    by (simp add: highlight_init_def sample_chart_def)
  from snapshot_captured_once [of "highlight_init sample_chart" 1] e k
  have p: "originalOpacities (snd (step (Hover 1) (highlight_init sample_chart))) \<noteq> []"
    by blast
  from snapshot_captured_once [of "snd (step (Hover 1) (highlight_init sample_chart))" 0
      "[Unhover, SetData [], Hover 0, Unhover]"] p e k
  show ?thesis by blast
qed

text \<open>
  C6. When no element has the given id, \<^verbatim>\<open>setupHighlight\<close> returns normally: it adds
  one warning to the console and changes nothing else, so it subscribes to no event.
\<close>

theorem setupHighlight_missing_element:
  assumes "elements pg plotId = None"
  shows "setupHighlight plotId pg
      = Inr (pg\<lparr>console := console pg @ [''Plot element not found: '' @ plotId]\<rparr>)
    \<and> (\<forall>pg'. setupHighlight plotId pg = Inr pg' \<longrightarrow>
          listeners pg' = listeners pg \<and> elements pg' = elements pg
          \<and> console pg' = console pg @ [''Plot element not found: '' @ plotId])
    \<and> (\<forall>e. setupHighlight plotId pg \<noteq> Inl e)"
  using assms by (auto simp: setupHighlight_def)

theorem setupHighlight_missing_element_witness:
  "elements empty_page ''standings'' = None
   \<and> setupHighlight ''standings'' empty_page
      = Inr \<lparr>elements = Map.empty, console = [''Plot element not found: standings''],
             listeners = []\<rparr>"
proof -
  have h: "elements empty_page ''standings'' = None" by (simp add: empty_page_def)
  from setupHighlight_missing_element [OF h] h show ?thesis
    by (simp add: empty_page_def)
qed

text \<open>
  C8. \<^verbatim>\<open>createTeamLineChart\<close> passes one trace per team record to \<^verbatim>\<open>Plotly.newPlot\<close>, in
  the order of the records. The hover template of each trace holds the team's name in
  bold, and formats the y value with \<^verbatim>\<open>%{y:.1f}\<close>, one decimal place.
\<close>

theorem createTeamLineChart_traces:
  "length (np_traces (createTeamLineChart plotId d layout)) = length (data_teams d)
   \<and> (\<forall>i<length (data_teams d).
        trace_name (np_traces (createTeamLineChart plotId d layout) ! i)
          = team_name (data_teams d ! i)
        \<and> trace_y (np_traces (createTeamLineChart plotId d layout) ! i)
          = team_y (data_teams d ! i)
        \<and> trace_hovertemplate (np_traces (createTeamLineChart plotId d layout) ! i)
          = Some (''<b>'' @ team_name (data_teams d ! i) @ ''</b><br>'' @ data_xLabel d
               @ '': %{x}<br>'' @ data_yLabel d @ '': %{y:.1f}<extra></extra>''))"
  by (simp add: createTeamLineChart_def team_trace_def)

theorem createTeamLineChart_traces_witness:
  "(1::nat) < length (data_teams sample_data)
   \<and> length (np_traces (createTeamLineChart ''standings'' sample_data Map.empty)) = 2
   \<and> trace_name (np_traces (createTeamLineChart ''standings'' sample_data Map.empty) ! 1) = ''Bears''
   \<and> trace_hovertemplate (np_traces (createTeamLineChart ''standings'' sample_data Map.empty) ! 1)
      = Some ''<b>Bears</b><br>Week: %{x}<br>Points: %{y:.1f}<extra></extra>''"
proof -
  have h: "(1::nat) < length (data_teams sample_data)" by (simp add: sample_data_def)
  note t = createTeamLineChart_traces [of "''standings''" sample_data Map.empty]
  from t have a: "length (np_traces (createTeamLineChart ''standings'' sample_data Map.empty))
      = length (data_teams sample_data)" by (rule conjunct1)
  from t h have b:
    "trace_name (np_traces (createTeamLineChart ''standings'' sample_data Map.empty) ! 1)
       = team_name (data_teams sample_data ! 1)
     \<and> trace_hovertemplate (np_traces (createTeamLineChart ''standings'' sample_data Map.empty) ! 1)
       = Some (''<b>'' @ team_name (data_teams sample_data ! 1) @ ''</b><br>''
               @ data_xLabel sample_data @ '': %{x}<br>'' @ data_yLabel sample_data
               @ '': %{y:.1f}<extra></extra>'')"
    by blast
  have v: "length (data_teams sample_data) = 2" "team_name (data_teams sample_data ! 1) = ''Bears''"
    "data_xLabel sample_data = ''Week''" "data_yLabel sample_data = ''Points''"
    by (simp_all add: sample_data_def)
  from a b h show ?thesis unfolding v by simp
qed

text \<open>
  C9. The layout passed to \<^verbatim>\<open>Plotly.newPlot\<close> has, at every top-level key of the
  overrides, the override's value, and at every other key the value of the default
  layout (none where the default has none). The merge is shallow: the override of a key
  replaces the whole default value of that key.
\<close>

theorem createTeamLineChart_layout:
  "(\<forall>k v. layout k = Some v \<longrightarrow> np_layout (createTeamLineChart plotId d layout) k = Some v)
   \<and> (\<forall>k. layout k = None \<longrightarrow>
         np_layout (createTeamLineChart plotId d layout) k = defaultLayout k)"
  by (simp add: createTeamLineChart_def map_add_def)

theorem createTeamLineChart_layout_witness:
  "sample_layout ''margin'' = Some (JObj [(''t'', JNum (Fin 10))])
   \<and> sample_layout ''hovermode'' = None
   \<and> np_layout (createTeamLineChart ''standings'' sample_data sample_layout) ''margin''
      = Some (JObj [(''t'', JNum (Fin 10))])
   \<and> defaultLayout ''margin'' = Some (JObj [(''t'', JNum (Fin 50)), (''r'', JNum (Fin 30)),
                         (''b'', JNum (Fin 50)), (''l'', JNum (Fin 60))])
   \<and> np_layout (createTeamLineChart ''standings'' sample_data sample_layout) ''hovermode''
      = Some (JStr ''closest'')"
proof -
  have a: "sample_layout ''margin'' = Some (JObj [(''t'', JNum (Fin 10))])"
    by (simp add: sample_layout_def)
  have b: "sample_layout ''hovermode'' = None" by (simp add: sample_layout_def)
  have c: "defaultLayout ''hovermode'' = Some (JStr ''closest'')" by (simp add: defaultLayout_def)
  have m: "defaultLayout ''margin'' = Some (JObj [(''t'', JNum (Fin 50)), (''r'', JNum (Fin 30)),
                         (''b'', JNum (Fin 50)), (''l'', JNum (Fin 60))])"
    by (simp add: defaultLayout_def)
  note t = createTeamLineChart_layout [of sample_layout "''standings''" sample_data]
  from t a have "np_layout (createTeamLineChart ''standings'' sample_data sample_layout) ''margin''
      = Some (JObj [(''t'', JNum (Fin 10))])" by blast
  moreover from t b have
    "np_layout (createTeamLineChart ''standings'' sample_data sample_layout) ''hovermode''
      = defaultLayout ''hovermode''" by blast
  ultimately show ?thesis using a b c m by simp
qed

subsection \<open>What an unhover restores\<close>

lemma js_or_truthy: "truthy d \<Longrightarrow> truthy (js_or a d)"
  by (cases a) simp_all

lemma unhover_of_saved:
  assumes "truthy d"
  shows "map (\<lambda>j. js_or (js_nth (map (\<lambda>t. js_or (f t) d) ts) j) d) [0..<length ts]
           = map (\<lambda>t. js_or (f t) d) ts"
  using assms by (intro nth_equalityI) (simp_all add: js_nth_def js_or_truthy)

lemma saved_widths_truthy:
  "truthy (case trace_line t of Some l \<Rightarrow> js_or (line_width l) (Fin 2) | None \<Rightarrow> Fin 2)"
  by (simp add: js_or_truthy split: option.split)

lemma unhover_of_saved_widths:
  "map (\<lambda>j. js_or (js_nth (map (\<lambda>t. case trace_line t of
            Some l \<Rightarrow> js_or (line_width l) (Fin 2) | None \<Rightarrow> Fin 2) ts) j) (Fin 2)) [0..<length ts]
     = map (\<lambda>t. case trace_line t of
            Some l \<Rightarrow> js_or (line_width l) (Fin 2) | None \<Rightarrow> Fin 2) ts"
  by (intro nth_equalityI) (simp_all add: js_nth_def saved_widths_truthy)

lemma last_update_snoc:
  "last_update (es @ [e]) st u =
     (case fst (step e (run es st)) of Some u' \<Rightarrow> Some u' | None \<Rightarrow> last_update es st u)"
proof (induction es arbitrary: st u)
  case Nil
  show ?case by (cases "step e st") (simp split: option.split)
next
  case (Cons a es)
  show ?case by (cases "step a st") (simp add: Cons.IH split: option.split)
qed

lemma step_keeps_length:
  assumes "\<forall>traces. e \<noteq> SetData traces"
  shows "length (plot_data (snd (step e st))) = length (plot_data st)"
  using assms
  by (cases e) (simp_all add: case_prod_unfold hover_state unhover_state length_restyle)

lemma run_keeps_length:
  "\<forall>e\<in>set es. \<forall>traces. e \<noteq> SetData traces \<Longrightarrow>
     length (plot_data (run es st)) = length (plot_data st)"
  by (induction es arbitrary: st) (simp_all add: step_keeps_length)

text \<open>
  What an unhover restores: after a first hover on a chart with the series \<open>d\<close> and any
  further hovers and unhovers, the update of an unhover holds the values saved at that
  first hover. A saved value is the value of the series where that is set and truthy,
  and the default (1.0 for the opacity, 2 for the line width) otherwise.
\<close>

lemma unhover_restores_saved_values:
  assumes d: "d \<noteq> []" and es: "\<forall>e\<in>set es. \<forall>traces. e \<noteq> SetData traces"
  shows "last_update (Hover k # es @ [Unhover]) (highlight_init d) None =
     Some \<lparr>upd_opacity = map (\<lambda>t. js_or (trace_opacity t) (Fin 1)) d,
           upd_line_width = map (\<lambda>t. case trace_line t of
              Some l \<Rightarrow> js_or (line_width l) (Fin 2) | None \<Rightarrow> Fin 2) d\<rparr>"
proof -
  define st1 where "st1 = snd (plotly_hover k (highlight_init d))"
  define st2 where "st2 = run es st1"
  have idx: "map (\<lambda>j. js_or (trace_opacity (d ! j)) (Fin 1)) [0..<length d]
      = map (\<lambda>t. js_or (trace_opacity t) (Fin 1)) d"
    "map (\<lambda>j. case trace_line (d ! j) of
              Some l \<Rightarrow> js_or (line_width l) (Fin 2) | None \<Rightarrow> Fin 2) [0..<length d]
      = map (\<lambda>t. case trace_line t of
              Some l \<Rightarrow> js_or (line_width l) (Fin 2) | None \<Rightarrow> Fin 2) d"
    by (intro nth_equalityI; simp)+
  have o1: "originalOpacities st1 = map (\<lambda>t. js_or (trace_opacity t) (Fin 1)) d"
    unfolding st1_def by (simp add: hover_state highlight_init_def idx)
  have w1: "originalLineWidths st1 = map (\<lambda>t. case trace_line t of
              Some l \<Rightarrow> js_or (line_width l) (Fin 2) | None \<Rightarrow> Fin 2) d"
    unfolding st1_def by (simp add: hover_state highlight_init_def idx)
  have l1: "length (plot_data st1) = length d"
    unfolding st1_def by (simp add: hover_state highlight_init_def length_restyle)
  have ne: "originalOpacities st1 \<noteq> []" using d by (simp add: o1)
  have o2: "originalOpacities st2 = originalOpacities st1"
    and w2: "originalLineWidths st2 = originalLineWidths st1"
    unfolding st2_def using run_keeps_snapshot [OF ne, of es] by simp_all
  have l2: "length (plot_data st2) = length d"
    unfolding st2_def using run_keeps_length [OF es, of st1] l1 by simp
  have "last_update (Hover k # es @ [Unhover]) (highlight_init d) None
      = last_update (es @ [Unhover]) st1 (Some (fst (plotly_hover k (highlight_init d))))"
    by (simp add: case_prod_unfold st1_def)
  also have "\<dots> = Some (fst (plotly_unhover st2))"
    by (simp add: last_update_snoc case_prod_unfold st2_def)
  also have "fst (plotly_unhover st2) =
     \<lparr>upd_opacity = map (\<lambda>t. js_or (trace_opacity t) (Fin 1)) d,
      upd_line_width = map (\<lambda>t. case trace_line t of
              Some l \<Rightarrow> js_or (line_width l) (Fin 2) | None \<Rightarrow> Fin 2) d\<rparr>"
    unfolding unhover_update o2 w2 o1 w1 l2
    using unhover_of_saved [of "Fin 1" trace_opacity d] unhover_of_saved_widths [of d]
    by simp
  finally show ?thesis .
qed

text \<open>
  C2. The claim that an unhover gives every series the value it had before the first
  hover fails for a value of 0. In the chart \<open>hidden_chart\<close> the second series has opacity
  0 and line width 0; after a hover and an unhover the update gives it opacity 1.0 and
  line width 2.
\<close>

theorem unhover_overwrites_zero_values:
  "map trace_opacity hidden_chart = [Some (Fin (1 / 2)), Some (Fin 0)]
   \<and> map (\<lambda>t. map_option line_width (trace_line t)) hidden_chart
       = [Some (Some (Fin 3)), Some (Some (Fin 0))]
   \<and> last_update [Hover 0, Unhover] (highlight_init hidden_chart) None
       = Some \<lparr>upd_opacity = [Fin (1 / 2), Fin 1], upd_line_width = [Fin 3, Fin 2]\<rparr>"
proof -
  have ne: "hidden_chart \<noteq> []" by (simp add: hidden_chart_def)
  have "last_update (Hover 0 # [] @ [Unhover]) (highlight_init hidden_chart) None =
     Some \<lparr>upd_opacity = map (\<lambda>t. js_or (trace_opacity t) (Fin 1)) hidden_chart,
           upd_line_width = map (\<lambda>t. case trace_line t of
              Some l \<Rightarrow> js_or (line_width l) (Fin 2) | None \<Rightarrow> Fin 2) hidden_chart\<rparr>"
    by (rule unhover_restores_saved_values [OF ne]) simp
  then show ?thesis by (simp add: hidden_chart_def sample_trace_def)
qed

section \<open>Exact double evaluations\<close>

lemma fl_eqI:
  assumes "pow2 e \<le> \<bar>x\<bar>" "\<bar>x\<bar> < pow2 (e + 1)" "- 1022 \<le> e" "e \<le> 1022"
    and "\<bar>x / pow2 (e - 52) - of_int m\<bar> < 1 / 2"
  shows "fl x = Fin (of_int m * pow2 (e - 52))"
proof -
  have ex: "expo \<bar>x\<bar> = e" using assms(1,2) by (rule expo_unique)
  have nz: "x \<noteq> 0" using assms(1) pow2_pos [of e] by auto
  have r: "rhe (x / pow2 (e - 52)) = m" using assms(5) by (rule rhe_eqI)
  have "pow2 (e + 1) \<le> pow2 1023" using assms(4) by (intro pow2_mono) simp
  with assms(2) have "\<bar>x\<bar> < pow2 1023" by linarith
  from fl_error [OF this] obtain y where y: "fl x = Fin y" by blast
  have m: "max e (- 1022) = e" using assms(3) by simp
  from y show ?thesis
    by (simp add: fl_def nz ex m r Let_def split: if_splits)
qed

lemma fl_81_106: "fl (81 / 106) = Fin (6882859807868117 / 2 ^ 53)"
proof -
  have "fl (81 / 106) = Fin (of_int 6882859807868117 * pow2 (- 1 - 52))"
    by (rule fl_eqI) (simp_all add: pow2_def)
  then show ?thesis by (simp add: pow2_def)
qed

lemma fl_blue_product:
  "fl (- 159 * (6882859807868117 / 2 ^ 53)) = Fin (- 8549802417586177 / 2 ^ 46)"
proof -
  have "fl (- 159 * (6882859807868117 / 2 ^ 53)) = Fin (of_int (- 8549802417586177) * pow2 (6 - 52))"
    by (rule fl_eqI) (simp_all add: pow2_def)
  then show ?thesis by (simp add: pow2_def)
qed

lemma fl_blue_sum:
  "fl (219 + - 8549802417586177 / 2 ^ 46) = Fin (6860952557322239 / 2 ^ 46)"
proof -
  have "fl (219 + - 8549802417586177 / 2 ^ 46) = Fin (of_int 6860952557322239 * pow2 (6 - 52))"
    by (rule fl_eqI) (simp_all add: pow2_def)
  then show ?thesis by (simp add: pow2_def)
qed

lemma teamRatio_107_81: "teamRatio 107 81 = Fin (6882859807868117 / 2 ^ 53)"
proof -
  have "js_sub (Fin (of_nat 107)) (Fin 1) = Fin (of_nat (107 - 1))"
    by (rule js_sub_nat_one) simp_all
  then have "js_sub (Fin 107) (Fin 1) = Fin 106" by simp
  then show ?thesis by (simp add: teamRatio_def fl_81_106)
qed

lemma blue_107_81: "channel 219 60 (teamRatio 107 81) = RInt 97"
proof -
  have "js_sub (Fin (of_int 60)) (Fin (of_int 219)) = Fin (of_int (60 - 219))"
    by (rule js_sub_ints) simp
  then have s: "js_sub (Fin 60) (Fin 219) = Fin (- 159)" by simp
  have f: "\<lfloor>(6860952557322239::rat) / 2 ^ 46 + 1 / 2\<rfloor> = 97"
    by (rule floor_unique) simp_all
  show ?thesis
    by (simp only: channel_def teamRatio_107_81 s js_mul.simps js_add.simps fl_blue_product
        fl_blue_sum math_round.simps f)
qed

text \<open>
  A tie decided by the double arithmetic. With 107 teams the exact blue channel of colour
  81 is \<open>219 - 159 * 81 / 106 = 97.5\<close>. The code divides first: the double nearest to
  \<open>81 / 106\<close> is slightly above it, the product rounds to \<open>-121.50000000000001\<close> and the sum
  to \<open>97.49999999999999\<close>, which \<^verbatim>\<open>Math.round\<close> takes to 97, not 98.
\<close>

lemma teamColor_107_81: "teamColor 107 81 = ''rgb(189,94,97)''"
proof -
  have "channel (of_int 52) (of_int 231) (teamRatio 107 81) = RInt 189"
    by (rule channel_exact_value [where x = "20011 / 106"]) simp_all
  then have r: "channel 52 231 (teamRatio 107 81) = RInt 189" by simp
  have "channel (of_int 152) (of_int 76) (teamRatio 107 81) = RInt 94"
    by (rule channel_exact_value [where x = "4978 / 53"]) simp_all
  then have g: "channel 152 76 (teamRatio 107 81) = RInt 94" by simp
  show ?thesis by (simp add: teamColor_channels r g blue_107_81 digits.simps)
qed

subsection \<open>Distinct colours for 181 teams\<close>

lemma fl_half: "fl (1 / 2) = Fin (1 / 2)"
proof -
  have "fl (1 / 2) = Fin (of_int 4503599627370496 * pow2 (- 1 - 52))"
    by (rule fl_eqI) (simp_all add: pow2_def)
  then show ?thesis by (simp add: pow2_def)
qed

lemma fl_179_half: "fl (179 / 2) = Fin (179 / 2)"
proof -
  have "fl (179 / 2) = Fin (of_int 6298002603900928 * pow2 (6 - 52))"
    by (rule fl_eqI) (simp_all add: pow2_def)
  then show ?thesis by (simp add: pow2_def)
qed

lemma fl_283_half: "fl (283 / 2) = Fin (283 / 2)"
proof -
  have "fl (283 / 2) = Fin (of_int 4978588650569728 * pow2 (7 - 52))"
    by (rule fl_eqI) (simp_all add: pow2_def)
  then show ?thesis by (simp add: pow2_def)
qed

lemma fl_159_half: "fl (- (159 / 2)) = Fin (- (159 / 2))"
proof -
  have "fl (- (159 / 2)) = Fin (of_int (- 5594315162124288) * pow2 (6 - 52))"
    by (rule fl_eqI) (simp_all add: pow2_def)
  then show ?thesis by (simp add: pow2_def)
qed

lemma fl_279_half: "fl (279 / 2) = Fin (279 / 2)"
proof -
  have "fl (279 / 2) = Fin (of_int 4908219906392064 * pow2 (7 - 52))"
    by (rule fl_eqI) (simp_all add: pow2_def)
  then show ?thesis by (simp add: pow2_def)
qed

lemma fl_small_ints:
  "fl 179 = Fin 179" "fl (- 76) = Fin (- 76)" "fl (- 159) = Fin (- 159)"
  "fl (- 38) = Fin (- 38)" "fl 114 = Fin 114" "fl 180 = Fin 180"
  using fl_of_int [of 179] fl_of_int [of "- 76"] fl_of_int [of "- 159"]
    fl_of_int [of "- 38"] fl_of_int [of 114] fl_of_int [of 180]
  by simp_all

lemma teamRatio_181_90: "teamRatio 181 90 = Fin (1 / 2)"
  by (simp add: teamRatio_def js_sub_def fl_small_ints fl_half)

lemma teamColor_181_90: "teamColor 181 90 = rgb_string 142 114 140"
proof -
  have f: "\<lfloor>(229::rat) / 2\<rfloor> = 114"
    by (rule floor_unique) simp_all
  have r: "channel 52 231 (Fin (1 / 2)) = RInt 142"
    by (simp add: channel_def js_sub_def fl_small_ints fl_179_half fl_283_half f)
  have g: "channel 152 76 (Fin (1 / 2)) = RInt 114"
    by (simp add: channel_def js_sub_def fl_small_ints f)
  have b: "channel 219 60 (Fin (1 / 2)) = RInt 140"
    by (simp add: channel_def js_sub_def fl_small_ints fl_159_half fl_279_half f)
  show ?thesis
    by (simp only: teamColor_channels teamRatio_181_90 r g b rgb_string_def)
qed

lemma teamColor_181_91: "teamColor 181 91 = rgb_string 142 114 139"
proof -
  have "channel (of_int 52) (of_int 231) (teamRatio 181 91) = RInt 142"
    by (rule channel_exact_value [where x = "25649 / 180"]) simp_all
  then have r: "channel 52 231 (teamRatio 181 91) = RInt 142" by simp
  have "channel (of_int 152) (of_int 76) (teamRatio 181 91) = RInt 114"
    by (rule channel_exact_value [where x = "5111 / 45"]) simp_all
  then have g: "channel 152 76 (teamRatio 181 91) = RInt 114" by simp
  have "channel (of_int 219) (of_int 60) (teamRatio 181 91) = RInt 139"
    by (rule channel_exact_value [where x = "8317 / 60"]) simp_all
  then have b: "channel 219 60 (teamRatio 181 91) = RInt 139" by simp
  show ?thesis
    by (simp only: teamColor_channels r g b rgb_string_def)
qed

lemma red_181:
  fixes r :: int
  assumes "i < 181" "i \<noteq> 90"
    and "\<bar>rat_of_int r - (52 + (231 - 52) * (of_nat i / of_nat (181 - 1)))\<bar> \<le> 1 / 2"
  shows "r = (if i < 90 then 52 + int i else 51 + int i)"
proof -
  define t :: rat where "t = of_nat i"
  have e: "\<bar>rat_of_int r - (52 + 179 * (t / 180))\<bar> \<le> 1 / 2"
    using assms(3) by (simp add: t_def)
  show ?thesis
  proof (cases "i < 90")
    case True
    then have "(of_nat i :: rat) < of_nat 90" by (simp only: of_nat_less_iff)
    then have "t < 90" by (simp add: t_def)
    moreover have "0 \<le> t" by (simp add: t_def)
    ultimately have "\<bar>rat_of_int r - (52 + t)\<bar> < 1" using e by linarith
    then have "\<bar>rat_of_int r - of_int (52 + int i)\<bar> < 1" by (simp add: t_def)
    then have "r = 52 + int i" by (rule int_close)
    with True show ?thesis by simp
  next
    case False
    then have "90 < i" using assms(2) by linarith
    then have "(of_nat 90 :: rat) < of_nat i" by (simp only: of_nat_less_iff)
    then have "90 < t" by (simp add: t_def)
    moreover have "(of_nat i :: rat) < of_nat 181" using assms(1) by (simp only: of_nat_less_iff)
    then have "t < 181" by (simp add: t_def)
    ultimately have "\<bar>rat_of_int r - (51 + t)\<bar> < 1" using e by linarith
    then have "\<bar>rat_of_int r - of_int (51 + int i)\<bar> < 1" by (simp add: t_def)
    then have "r = 51 + int i" by (rule int_close)
    with False show ?thesis by simp
  qed
qed

lemma teamColor_181_red:
  assumes "i < 181" "i \<noteq> 90"
  shows "\<exists>g b. teamColor 181 i = rgb_string (if i < 90 then 52 + int i else 51 + int i) g b"
proof -
  have n: "(2::nat) \<le> 181" "(181::nat) \<le> 2 ^ 32" by simp_all
  from teamColor_rgb [OF n assms(1)] obtain r g b where
    c: "teamColor 181 i = rgb_string r g b"
    and r: "\<bar>rat_of_int r - (52 + (231 - 52) * (of_nat i / of_nat (181 - 1)))\<bar> \<le> 1 / 2"
    by blast
  from red_181 [OF assms r] c show ?thesis by blast
qed

lemma teamColor_inj_181:
  assumes ij: "i < j" "j < 181"
  shows "teamColor 181 i \<noteq> teamColor 181 j"
proof
  assume eq: "teamColor 181 i = teamColor 181 j"
  have i: "i < 181" using ij by linarith
  show False
  proof (cases "i = 90")
    case True
    show False
    proof (cases "j = 91")
      case j: True
      from eq have "rgb_string 142 114 140 = rgb_string 142 114 139"
        unfolding True j teamColor_181_90 teamColor_181_91 .
      then have "(140::int) = 139" by (intro conjunct2 [OF conjunct2 [OF rgb_string_inj]]) simp_all
      then show False by simp
    next
      case False
      then have j: "j \<noteq> 90" "\<not> j < 90" "92 \<le> j" using ij(1) True by linarith+
      from teamColor_181_red [OF ij(2) j(1)] j(2) obtain g b where
        "teamColor 181 j = rgb_string (51 + int j) g b" by auto
      with eq True have "rgb_string 142 114 140 = rgb_string (51 + int j) g b"
        by (simp add: teamColor_181_90)
      then have "142 = 51 + int j" by (rule rgb_string_red_inj [rotated 2]) simp_all
      with j(3) show False by linarith
    qed
  next
    case False
    from teamColor_181_red [OF i False] obtain g b where
      ci: "teamColor 181 i = rgb_string (if i < 90 then 52 + int i else 51 + int i) g b" by blast
    show False
    proof (cases "j = 90")
      case True
      then have "i < 90" using ij(1) by linarith
      with ci eq True have "rgb_string (52 + int i) g b = rgb_string 142 114 140"
        by (simp add: teamColor_181_90)
      then have "52 + int i = 142" by (rule rgb_string_red_inj [rotated 2]) simp_all
      with \<open>i < 90\<close> show False by linarith
    next
      case j: False
      from teamColor_181_red [OF ij(2) j] obtain g' b' where
        cj: "teamColor 181 j = rgb_string (if j < 90 then 52 + int j else 51 + int j) g' b'"
        by blast
      from eq ci cj have "rgb_string (if i < 90 then 52 + int i else 51 + int i) g b
          = rgb_string (if j < 90 then 52 + int j else 51 + int j) g' b'" by simp
      then have "(if i < 90 then 52 + int i else 51 + int i)
          = (if j < 90 then 52 + int j else 51 + int j)"
        by (rule rgb_string_red_inj [rotated 2]) simp_all
      with ij(1) False j show False by (simp split: if_splits)
    qed
  qed
qed

subsection \<open>Monotone channels\<close>

lemma getTeamColors_distinct_181: "distinct (getTeamColors 181)"
proof -
  have "inj_on (teamColor 181) (set [0..<181])"
  proof (rule inj_onI)
    fix i j assume i: "i \<in> set [0..<181]" and j: "j \<in> set [0..<181]"
      and eq: "teamColor 181 i = teamColor 181 j"
    show "i = j"
    proof (rule ccontr)
      assume "i \<noteq> j"
      then consider "i < j" | "j < i" by linarith
      then show False
      proof cases
        case 1
        with teamColor_inj_181 [OF 1] j eq show False by simp
      next
        case 2
        with teamColor_inj_181 [OF 2] i eq show False by simp
      qed
    qed
  qed
  then show ?thesis by (simp add: getTeamColors_map distinct_map)
qed

text \<open>
  C5, amended. For \<open>2 \<le> n \<le> 2\<^sup>3\<^sup>2\<close> the channels are monotone along the sequence: red
  never decreases, green and blue never increase. The colours are pairwise distinct
  when \<open>n \<le> 181\<close>; 182 is the first team count with two equal colours.
\<close>

theorem getTeamColors_monotone:
  assumes "2 \<le> n" "n \<le> 2 ^ 32"
  shows "(\<exists>rs gs bs.
      (\<forall>i<n. getTeamColors n ! i = rgb_string (rs i) (gs i) (bs i)
          \<and> 0 \<le> rs i \<and> 0 \<le> gs i \<and> 0 \<le> bs i)
      \<and> (\<forall>i j. i \<le> j \<and> j < n \<longrightarrow> rs i \<le> rs j \<and> gs j \<le> gs i \<and> bs j \<le> bs i))
    \<and> (n \<le> 181 \<longrightarrow> distinct (getTeamColors n))"
proof -
  define rs where "rs i = the_int (channel 52 231 (teamRatio n i))" for i
  define gs where "gs i = the_int (channel 152 76 (teamRatio n i))" for i
  define bs where "bs i = the_int (channel 219 60 (teamRatio n i))" for i
  have strings: "getTeamColors n ! i = rgb_string (rs i) (gs i) (bs i)
      \<and> 0 \<le> rs i \<and> 0 \<le> gs i \<and> 0 \<le> bs i" if "i < n" for i
  proof -
    have "getTeamColors n ! i = teamColor n i" using that by (simp add: getTeamColors_map)
    with teamColor_channel_ints(4-7) [OF assms that] show ?thesis
      unfolding rs_def gs_def bs_def by simp
  qed
  have mono: "rs i \<le> rs j \<and> gs j \<le> gs i \<and> bs j \<le> bs i" if ij: "i \<le> j" "j < n" for i j
  proof -
    have i: "i < n" using that by linarith
    note ci = teamColor_channel_ints(1-3) [OF assms i]
    note cj = teamColor_channel_ints(1-3) [OF assms ij(2)]
    have "rs i \<le> rs j" unfolding rs_def
    proof (rule channel_mono_up [OF assms ij, of 52 231])
      show "channel (of_int 52) (of_int 231) (teamRatio n i)
          = RInt (the_int (channel 52 231 (teamRatio n i)))" using ci(1) by simp
      show "channel (of_int 52) (of_int 231) (teamRatio n j)
          = RInt (the_int (channel 52 231 (teamRatio n j)))" using cj(1) by simp
    qed simp_all
    moreover have "gs j \<le> gs i" unfolding gs_def
    proof (rule channel_mono_down [OF assms ij, of 152 76])
      show "channel (of_int 152) (of_int 76) (teamRatio n i)
          = RInt (the_int (channel 152 76 (teamRatio n i)))" using ci(2) by simp
      show "channel (of_int 152) (of_int 76) (teamRatio n j)
          = RInt (the_int (channel 152 76 (teamRatio n j)))" using cj(2) by simp
    qed simp_all
    moreover have "bs j \<le> bs i" unfolding bs_def
    proof (rule channel_mono_down [OF assms ij, of 219 60])
      show "channel (of_int 219) (of_int 60) (teamRatio n i)
          = RInt (the_int (channel 219 60 (teamRatio n i)))" using ci(3) by simp
      show "channel (of_int 219) (of_int 60) (teamRatio n j)
          = RInt (the_int (channel 219 60 (teamRatio n j)))" using cj(3) by simp
    qed simp_all
    ultimately show ?thesis by simp
  qed
  have "(\<forall>i<n. getTeamColors n ! i = rgb_string (rs i) (gs i) (bs i)
          \<and> 0 \<le> rs i \<and> 0 \<le> gs i \<and> 0 \<le> bs i)
      \<and> (\<forall>i j. i \<le> j \<and> j < n \<longrightarrow> rs i \<le> rs j \<and> gs j \<le> gs i \<and> bs j \<le> bs i)"
    using strings mono by blast
  then have "\<exists>rs gs bs.
      (\<forall>i<n. getTeamColors n ! i = rgb_string (rs i) (gs i) (bs i)
          \<and> 0 \<le> rs i \<and> 0 \<le> gs i \<and> 0 \<le> bs i)
      \<and> (\<forall>i j. i \<le> j \<and> j < n \<longrightarrow> rs i \<le> rs j \<and> gs j \<le> gs i \<and> bs j \<le> bs i)"
    by blast
  moreover have "n \<le> 181 \<longrightarrow> distinct (getTeamColors n)"
  proof
    assume "n \<le> 181"
    then consider "n \<le> 180" | "n = 181" by linarith
    then show "distinct (getTeamColors n)"
    proof cases
      case 1
      with assms(1) show ?thesis by (rule getTeamColors_distinct_small)
    next
      case 2
      show ?thesis unfolding 2 by (rule getTeamColors_distinct_181)
    qed
  qed
  ultimately show ?thesis by blast
qed

theorem getTeamColors_monotone_witness:
  "(2::nat) \<le> 3 \<and> (3::nat) \<le> 2 ^ 32 \<and> (3::nat) \<le> 181
    \<and> (\<exists>rs gs bs.
      (\<forall>i<3. getTeamColors 3 ! i = rgb_string (rs i) (gs i) (bs i)
          \<and> 0 \<le> rs i \<and> 0 \<le> gs i \<and> 0 \<le> bs i)
      \<and> (\<forall>i j. i \<le> j \<and> j < 3 \<longrightarrow> rs i \<le> rs j \<and> gs j \<le> gs i \<and> bs j \<le> bs i))
    \<and> distinct (getTeamColors 3)"
proof -
  have h1: "(2::nat) \<le> 3" by simp
  have h2: "(3::nat) \<le> 2 ^ 32" by simp
  have h3: "(3::nat) \<le> 181" by simp
  from getTeamColors_monotone [OF h1 h2] h1 h2 h3 show ?thesis by blast
qed

end
